theory Spec2Isabelle
  imports Main "HOL-Library.Word"
begin

unbundle bit_operations_syntax

section \<open>Bytes, runes and Go's string conversions\<close>

text \<open>
  A Go \<^verbatim>\<open>byte\<close> is an unsigned 8-bit integer and a \<^verbatim>\<open>rune\<close> a signed 32-bit
  integer. The conversion \<^verbatim>\<open>byte(r)\<close> of a rune keeps its low 8 bits and \<^verbatim>\<open>rune(b)\<close> of a
  byte is the zero extension; both are \<open>ucast\<close>.
\<close>

type_synonym byte = "8 word"
type_synonym rune = "32 word"

text \<open>
  \<^verbatim>\<open>string(rs)\<close> of a rune slice writes each rune in UTF-8, a rune that is no Unicode
  scalar value (above U+10FFFF, a surrogate, or negative, which \<^verbatim>\<open>uint32(r)\<close> makes large)
  as U+FFFD. This is \<^verbatim>\<open>encoderune\<close> of the Go runtime.
\<close>

definition encoderune :: "rune \<Rightarrow> byte list" where
  "encoderune r =
     (let i = unat r in
      if i \<le> 0x7F then [ucast r]
      else if i \<le> 0x7FF then
        [0xC0 OR ucast (drop_bit 6 r), 0x80 OR (ucast r AND 0x3F)]
      else if i > 0x10FFFF \<or> (0xD800 \<le> i \<and> i \<le> 0xDFFF) then [0xEF, 0xBF, 0xBD]
      else if i \<le> 0xFFFF then
        [0xE0 OR ucast (drop_bit 12 r),
         0x80 OR (ucast (drop_bit 6 r) AND 0x3F),
         0x80 OR (ucast r AND 0x3F)]
      else
        [0xF0 OR ucast (drop_bit 18 r),
         0x80 OR (ucast (drop_bit 12 r) AND 0x3F),
         0x80 OR (ucast (drop_bit 6 r) AND 0x3F),
         0x80 OR (ucast r AND 0x3F)])"

definition string_of_runes :: "rune list \<Rightarrow> byte list" where
  "string_of_runes rs = concat (map encoderune rs)"

text \<open>
  \<^verbatim>\<open>[]rune(s)\<close> of a string reads it rune by rune: a byte below \<open>0x80\<close> is itself, and
  \<^verbatim>\<open>decoderune\<close> of the Go runtime reads a sequence of two, three or four bytes. Anything
  else (a stray continuation byte, a truncated or overlong sequence, a surrogate, a value
  above U+10FFFF) is U+FFFD and one byte wide. The result is the rune and its width.
\<close>

definition contb :: "byte \<Rightarrow> bool" where
  "contb b = (0x80 \<le> b \<and> b \<le> 0xBF)"

definition runeError :: rune where
  "runeError = 0xFFFD"

fun decoderune :: "byte list \<Rightarrow> rune \<times> nat" where
  "decoderune [] = (runeError, 1)"
| "decoderune (b0 # s) =
     (if 0xC0 \<le> b0 \<and> b0 < 0xE0 then
        (case s of
           b1 # _ \<Rightarrow>
             (if contb b1 then
                (let r = push_bit 6 (ucast (b0 AND 0x1F)) OR ucast (b1 AND 0x3F) in
                 if (0x7F :: rune) < r then (r, 2) else (runeError, 1))
              else (runeError, 1))
         | _ \<Rightarrow> (runeError, 1))
      else if 0xE0 \<le> b0 \<and> b0 < 0xF0 then
        (case s of
           b1 # b2 # _ \<Rightarrow>
             (if contb b1 \<and> contb b2 then
                (let r = push_bit 12 (ucast (b0 AND 0x0F)) OR push_bit 6 (ucast (b1 AND 0x3F))
                           OR ucast (b2 AND 0x3F) in
                 if (0x7FF :: rune) < r \<and> \<not> (0xD800 \<le> r \<and> r \<le> 0xDFFF)
                 then (r, 3) else (runeError, 1))
              else (runeError, 1))
         | _ \<Rightarrow> (runeError, 1))
      else if 0xF0 \<le> b0 \<and> b0 < 0xF8 then
        (case s of
           b1 # b2 # b3 # _ \<Rightarrow>
             (if contb b1 \<and> contb b2 \<and> contb b3 then
                (let r = push_bit 18 (ucast (b0 AND 0x07)) OR push_bit 12 (ucast (b1 AND 0x3F))
                           OR push_bit 6 (ucast (b2 AND 0x3F)) OR ucast (b3 AND 0x3F) in
                 if (0xFFFF :: rune) < r \<and> r \<le> 0x10FFFF then (r, 4) else (runeError, 1))
              else (runeError, 1))
         | _ \<Rightarrow> (runeError, 1))
      else (runeError, 1))"

fun runes_of_string :: "byte list \<Rightarrow> rune list" where
  "runes_of_string [] = []"
| "runes_of_string (b # bs) =
     (if b < 0x80 then ucast b # runes_of_string bs
      else (case decoderune (b # bs) of
              (r, n) \<Rightarrow> r # runes_of_string (drop (n - 1) bs)))"

section \<open>The key stack (type Keys)\<close>

text \<open>
  The fields of \<^verbatim>\<open>Keys\<close> that hold data. The two channels and the mutex are left to the
  functions that use them: what a function receives from a channel is an argument of its
  model and what it sends is part of its result.
\<close>

record Keys =
  buf :: "byte list"
  matched :: "rune list"
  matchedLen :: int
  macroKeys :: "rune list"
  mustWait :: bool
  waiting :: bool
  reading :: bool

text \<open>\<^verbatim>\<open>PopKey\<close>: the first byte of \<open>buf\<close>, else the first macro key as a byte, else empty.\<close>

definition PopKey :: "Keys \<Rightarrow> (byte \<times> bool) \<times> Keys" where
  "PopKey k =
     (case buf k of
        b # bs \<Rightarrow> ((b, False), k\<lparr>buf := bs\<rparr>)
      | [] \<Rightarrow>
          (case macroKeys k of
             m # ms \<Rightarrow> ((ucast m, False), k\<lparr>macroKeys := ms\<rparr>)
           | [] \<Rightarrow> ((0, True), k)))"

text \<open>\<^verbatim>\<open>PeekKey\<close>: the same choice, the state untouched.\<close>

definition PeekKey :: "Keys \<Rightarrow> byte \<times> bool" where
  "PeekKey k =
     (case buf k of
        b # bs \<Rightarrow> (b, False)
      | [] \<Rightarrow>
          (case macroKeys k of
             m # ms \<Rightarrow> (ucast m, False)
           | [] \<Rightarrow> (0, True)))"

text \<open>\<^verbatim>\<open>MatchedKeys\<close>: record the matched bytes, push \<open>args\<close> back in front of \<open>buf\<close>.\<close>

definition MatchedKeys :: "Keys \<Rightarrow> byte list \<Rightarrow> byte list \<Rightarrow> Keys" where
  "MatchedKeys k m args =
     (let k1 = (if length m > 0
                then k\<lparr>matched := matched k @ runes_of_string m,
                       matchedLen := matchedLen k + int (length m)\<rparr>
                else k)
      in if length args > 0 then k1\<lparr>buf := args @ buf k1\<rparr> else k1)"

text \<open>\<^verbatim>\<open>MatchedPrefix\<close>: the prefix goes back in front of \<open>buf\<close>; \<open>mustWait\<close> is set when
  \<open>buf\<close> was empty.\<close>

definition MatchedPrefix :: "Keys \<Rightarrow> byte list \<Rightarrow> Keys" where
  "MatchedPrefix k prefix =
     (if length prefix = 0 then k
      else k\<lparr>mustWait := (length (buf k) = 0),
             buf := prefix @ buf k,
             matched := runes_of_string prefix,
             matchedLen := int (length prefix)\<rparr>)"

text \<open>\<^verbatim>\<open>FlushUsed\<close>: on every path the deferred function clears \<open>matched\<close> and
  \<open>matchedLen\<close>.\<close>

definition FlushUsed :: "Keys \<Rightarrow> Keys" where
  "FlushUsed k =
     (let k1 = (if matchedLen k = 0 then k else k\<lparr>matched := []\<rparr>)
      in k1\<lparr>matchedLen := 0, matched := []\<rparr>)"

text \<open>\<^verbatim>\<open>Pop\<close>: as \<^verbatim>\<open>PopKey\<close>, and the key popped is appended to \<open>matched\<close>.\<close>

definition Pop :: "Keys \<Rightarrow> (byte \<times> bool) \<times> Keys" where
  "Pop k =
     (case buf k of
        b # bs \<Rightarrow>
          ((b, False),
           k\<lparr>buf := bs, matched := matched k @ [ucast b], matchedLen := matchedLen k + 1\<rparr>)
      | [] \<Rightarrow>
          (case macroKeys k of
             m # ms \<Rightarrow>
               ((ucast m, False),
                k\<lparr>macroKeys := ms,
                  matched := matched k @ [ucast (ucast m :: byte)],
                  matchedLen := matchedLen k + 1\<rparr>)
           | [] \<Rightarrow> ((0, True), k)))"

definition Caller :: "Keys \<Rightarrow> rune list" where
  "Caller k = matched k"

text \<open>\<^verbatim>\<open>Feed\<close>: the keys, read back from their string, go in front of the macro keys or
  behind them.\<close>

definition Feed :: "bool \<Rightarrow> rune list \<Rightarrow> Keys \<Rightarrow> Keys" where
  "Feed begin_flag keys k =
     (if length keys = 0 then k
      else (let keyBuf = runes_of_string (string_of_runes keys)
            in if begin_flag then k\<lparr>macroKeys := keyBuf @ macroKeys k\<rparr>
               else k\<lparr>macroKeys := macroKeys k @ keyBuf\<rparr>))"

section \<open>Reading the device\<close>

text \<open>
  A call of \<^verbatim>\<open>os.Stdin.Read\<close> gives the bytes it read and an error or none. The device is
  the list of the results of its coming reads; a read from the empty list never returns.
  What a function sends on a channel is listed in its result, in order; what it prints is
  listed the same way.
\<close>

text \<open>The bytes of a string literal of the source (ASCII).\<close>

definition bytes_of :: "string \<Rightarrow> byte list" where
  "bytes_of s = map of_char s"

datatype read_err = IoEOF | IoOther

type_synonym read_result = "byte list \<times> read_err option"

datatype chan_msg = CursorMsg "byte list" | KeysOnceMsg "byte list"

datatype term_out = Stdout "byte list" | Stderr "byte list"

subsection \<open>The cursor response \<^verbatim>\<open>\x1b\[([0-9]+);([0-9]+)R\<close>\<close>

definition isDigit :: "byte \<Rightarrow> bool" where
  "isDigit b = (0x30 \<le> b \<and> b \<le> 0x39)"

text \<open>
  A match of \<^verbatim>\<open>rxRcvCursorPos\<close> that starts at the first byte: the two groups of digits and
  what follows the \<^verbatim>\<open>R\<close>. Each group is followed by a byte that is no digit, so the
  longest run of digits is the only one that can match.
\<close>

definition matchCursorAt :: "byte list \<Rightarrow> (byte list \<times> byte list \<times> byte list) option" where
  "matchCursorAt s =
     (case s of
        e # l # t \<Rightarrow>
          (if e = 0x1B \<and> l = 0x5B then
             (let g1 = takeWhile isDigit t; t1 = dropWhile isDigit t in
              if g1 = [] then None
              else (case t1 of
                      c # t2 \<Rightarrow>
                        (if c = 0x3B then
                           (let g2 = takeWhile isDigit t2; t3 = dropWhile isDigit t2 in
                            if g2 = [] then None
                            else (case t3 of
                                    q # rest \<Rightarrow> if q = 0x52 then Some (g1, g2, rest) else None
                                  | [] \<Rightarrow> None))
                         else None)
                    | [] \<Rightarrow> None))
           else None)
      | _ \<Rightarrow> None)"

text \<open>The leftmost match: the bytes before it, the two groups, the bytes after it.
  This is \<^verbatim>\<open>FindAllStringSubmatch(s, 1)\<close>, \<open>None\<close> for no match.\<close>

fun findCursor :: "byte list \<Rightarrow> (byte list \<times> byte list \<times> byte list \<times> byte list) option" where
  "findCursor [] = None"
| "findCursor (b # bs) =
     (case matchCursorAt (b # bs) of
        Some (g1, g2, rest) \<Rightarrow> Some ([], g1, g2, rest)
      | None \<Rightarrow>
          (case findCursor bs of
             None \<Rightarrow> None
           | Some (pre, g1, g2, rest) \<Rightarrow> Some (b # pre, g1, g2, rest)))"

text \<open>
  All matches from left to right, none overlapping another (\<^verbatim>\<open>FindAll(keys, -1)\<close>), and the
  bytes outside them (\<^verbatim>\<open>ReplaceAll(keys, nil)\<close>). The first argument counts the bytes of
  the current match still to pass over.
\<close>

fun scanCursors :: "nat \<Rightarrow> byte list \<Rightarrow> byte list list \<times> byte list" where
  "scanCursors n [] = ([], [])"
| "scanCursors (Suc n) (b # bs) = scanCursors n bs"
| "scanCursors 0 (b # bs) =
     (case matchCursorAt (b # bs) of
        Some (g1, g2, rest) \<Rightarrow>
          (let m = take (length (b # bs) - length rest) (b # bs) in
           case scanCursors (length m - 1) bs of (ms, remain) \<Rightarrow> (m # ms, remain))
      | None \<Rightarrow> (case scanCursors 0 bs of (ms, remain) \<Rightarrow> (ms, b # remain)))"

definition extractCursorPos :: "byte list \<Rightarrow> byte list \<times> byte list" where
  "extractCursorPos keys =
     (if findCursor keys = None then ([], keys)
      else (case scanCursors 0 keys of
              (allCursors, remain) \<Rightarrow> (last allCursors, remain)))"

text \<open>
  A send on one of the two channels waits until the other side receives. The other side
  is not part of this model: \<open>cr\<close> and \<open>kr\<close> say how many times it will still receive on
  the cursor channel and on the \<^verbatim>\<open>keysOnce\<close> channel; a send when the count is \<open>0\<close> never
  returns.
\<close>

text \<open>\<^verbatim>\<open>readInputFiltered\<close>: the keys, the error, and the cursor response sent on the
  cursor channel, if one was found; \<open>None\<close> when that send never returns.\<close>

definition readInputFiltered ::
  "nat \<Rightarrow> read_result \<Rightarrow> (byte list \<times> read_err option \<times> chan_msg list) option" where
  "readInputFiltered cr rd =
     (case rd of
        (data, err) \<Rightarrow>
          (if err = Some IoEOF then Some ([], Some IoEOF, [])
           else (case extractCursorPos data of
                   (cursor, keys) \<Rightarrow>
                     (if length cursor > 0 then
                        (if cr = 0 then None else Some (keys, None, [CursorMsg cursor]))
                      else Some (keys, None, [])))))"

subsection \<open>\<^verbatim>\<open>WaitAvailableKeys\<close>\<close>

text \<open>The loop of \<^verbatim>\<open>WaitAvailableKeys\<close>; \<open>None\<close> when the device has nothing more to read,
  or a send finds nobody to receive, and the loop waits for ever.\<close>

fun waitLoop ::
  "nat \<Rightarrow> nat \<Rightarrow> Keys \<Rightarrow> read_result list \<Rightarrow> chan_msg list \<Rightarrow>
     (Keys \<times> read_result list \<times> chan_msg list) option"
  where
  "waitLoop cr kr k [] sent = None"
| "waitLoop cr kr k (rd # dev) sent =
     (case readInputFiltered cr rd of
        None \<Rightarrow> None
      | Some (keyBuf, err, msgs) \<Rightarrow>
          (if err = Some IoEOF then Some (k, dev, sent @ msgs)
           else if length keyBuf = 0 then waitLoop (cr - length msgs) kr k dev (sent @ msgs)
           else if reading k then
             (if kr = 0 then None
              else waitLoop (cr - length msgs) (kr - 1) k dev
                     (sent @ msgs @ [KeysOnceMsg keyBuf]))
           else Some (k\<lparr>buf := buf k @ keyBuf\<rparr>, dev, sent @ msgs)))"

definition WaitAvailableKeys ::
  "nat \<Rightarrow> nat \<Rightarrow> Keys \<Rightarrow> read_result list \<Rightarrow>
     (Keys \<times> read_result list \<times> chan_msg list) option" where
  "WaitAvailableKeys cr kr k dev =
     (if length (buf k) > 0 \<and> \<not> mustWait k then Some (k, dev, [])
      else if length (macroKeys k) > 0 then Some (k, dev, [])
      else (case waitLoop cr kr (k\<lparr>waiting := True\<rparr>) dev [] of
              None \<Rightarrow> None
            | Some (k', dev', sent) \<Rightarrow> Some (k'\<lparr>waiting := False\<rparr>, dev', sent)))"

subsection \<open>\<^verbatim>\<open>GetCursorPos\<close>\<close>

text \<open>
  \<^verbatim>\<open>strconv.Atoi\<close> on a string of decimal digits, for the 64-bit \<^verbatim>\<open>int\<close>: the number, or
  an error when it is above \<open>2^63 - 1\<close>. The strings it gets here are groups of the match.
\<close>

definition Atoi :: "byte list \<Rightarrow> int option" where
  "Atoi ds =
     (if ds = [] \<or> \<not> list_all isDigit ds then None
      else (let n = foldl (\<lambda>a d. 10 * a + (uint d - 48)) 0 ds in
            if n \<le> 2 ^ 63 - 1 then Some n else None))"

definition queryCursor :: "byte list" where
  "queryCursor = [0x1B, 0x5B, 0x36, 0x6E]"

text \<open>The message \<^verbatim>\<open>disable\<close> writes to the standard error.\<close>

definition disableMsg :: "byte list" where
  "disableMsg =
     [0x0D, 0x0A]
     @ bytes_of ''getCursorPos() not supported by terminal emulator, disabling....''
     @ [0x0D, 0x0A]"

text \<open>
  The loop of \<^verbatim>\<open>GetCursorPos\<close>. While \<open>waiting\<close> or \<open>reading\<close> is set the bytes come from
  the cursor channel (the list \<open>ch\<close> of what will be sent on it), otherwise from the
  device. The loop ends with the two groups of the match, or with \<open>None\<close> where the code
  returns \<^verbatim>\<open>disable()\<close>; with them come the state and what is left of the two sources.
  The outer \<open>None\<close> is the call that waits for ever, its source having nothing more.
\<close>

fun cursorLoop ::
  "Keys \<Rightarrow> read_result list \<Rightarrow> byte list list \<Rightarrow>
     ((byte list \<times> byte list) option \<times> Keys \<times> read_result list \<times> byte list list) option"
  where
  "cursorLoop k dev ch =
     (if waiting k \<or> reading k then
        (case ch of
           [] \<Rightarrow> None
         | cursor # ch' \<Rightarrow>
             (if length cursor = 0 then Some (None, k, dev, ch')
              else (case findCursor cursor of
                      None \<Rightarrow>
                        (if length cursor > 0 then cursorLoop (k\<lparr>buf := buf k @ cursor\<rparr>) dev ch'
                         else Some (None, k, dev, ch'))
                    | Some (pre, g1, g2, post) \<Rightarrow> Some (Some (g1, g2), k, dev, ch'))))
      else
        (case dev of
           [] \<Rightarrow> None
         | (cursor, err) # dev' \<Rightarrow>
             (if err \<noteq> None then Some (None, k, dev', ch)
              else if length cursor = 0 then Some (None, k, dev', ch)
              else (case findCursor cursor of
                      None \<Rightarrow>
                        (if length cursor > 0 then cursorLoop (k\<lparr>buf := buf k @ cursor\<rparr>) dev' ch
                         else Some (None, k, dev', ch))
                    | Some (pre, g1, g2, post) \<Rightarrow> Some (Some (g1, g2), k, dev', ch)))))"

declare cursorLoop.simps [simp del]

text \<open>\<^verbatim>\<open>GetCursorPos\<close>: \<open>(x, y)\<close>, the state, what is left of the two sources, and what was
  written to the terminal.\<close>

definition GetCursorPos ::
  "Keys \<Rightarrow> read_result list \<Rightarrow> byte list list \<Rightarrow>
     ((int \<times> int) \<times> Keys \<times> read_result list \<times> byte list list \<times> term_out list) option" where
  "GetCursorPos k dev ch =
     (case cursorLoop k dev ch of
        None \<Rightarrow> None
      | Some (None, k', dev', ch') \<Rightarrow>
          Some ((-1, -1), k', dev', ch', [Stdout queryCursor, Stderr disableMsg])
      | Some (Some (g1, g2), k', dev', ch') \<Rightarrow>
          (case Atoi g1 of
             None \<Rightarrow> Some ((-1, -1), k', dev', ch', [Stdout queryCursor, Stderr disableMsg])
           | Some y \<Rightarrow>
               (case Atoi g2 of
                  None \<Rightarrow>
                    Some ((-1, -1), k', dev', ch', [Stdout queryCursor, Stderr disableMsg])
                | Some x \<Rightarrow> Some ((x, y), k', dev', ch', [Stdout queryCursor]))))"

section \<open>Calling \<^verbatim>\<open>Pop\<close> repeatedly\<close>

text \<open>\<open>PopN n\<close> is \<open>n\<close> calls of \<^verbatim>\<open>Pop\<close> in a row: their results in order, and the state
  they leave.\<close>

fun PopN :: "nat \<Rightarrow> Keys \<Rightarrow> (byte \<times> bool) list \<times> Keys" where
  "PopN 0 k = ([], k)"
| "PopN (Suc n) k =
     (case Pop k of (r, k1) \<Rightarrow> (case PopN n k1 of (rs, k2) \<Rightarrow> (r # rs, k2)))"

section \<open>The line editor (type Instance)\<close>

subsection \<open>State\<close>

text \<open>
  Modelled from the spec: the type of \<open>modeViMode\<close>, whose declaration is not among the
  sources. Its values are the five names the sources use, for the modes insert,
  replace-once, replace-many, vi-delete-pending and vi-command.
\<close>

datatype viMode = vimInsert | vimReplaceOnce | vimReplaceMany | vimDelete | vimKeys

text \<open>The two values of \<open>searchMode\<close> that the sources name.\<close>

datatype FindMode = HistoryFind | CompletionFind

text \<open>The errors \<^verbatim>\<open>Readline\<close> and the interrupt handlers return: the package's \<^verbatim>\<open>CtrlC\<close>,
  \<^verbatim>\<open>EOF\<close> and \<^verbatim>\<open>ErrCtrlC\<close>, an error of the device or of \<^verbatim>\<open>io\<close>, and the error of
  \<^verbatim>\<open>MakeRaw\<close>.\<close>

datatype rl_err = CtrlC | EOF | ErrCtrlC | IoErr read_err | TermErr

datatype panic = IndexOutOfRange | SliceBounds | NilFunc

text \<open>What a key-press handler returns (the fields \<^verbatim>\<open>Readline\<close> reads).\<close>

record EventReturn =
  ForwardKey :: bool
  ClearHelpers :: bool
  CloseReadline :: bool
  HintText :: "rune list"
  NewLine :: "rune list"
  NewPos :: int

text \<open>The completion group \<^verbatim>\<open>getCurrentGroup\<close> returns (the fields \<^verbatim>\<open>Readline\<close> reads).\<close>

record TabGroup =
  tcMaxX :: int
  tcPosY :: int
  tcPosX :: int
  tcOffset_cur :: int
  Suggestions :: "byte list list"

typedecl completer_fn

text \<open>
  The fields of \<^verbatim>\<open>Instance\<close> that the sources read or write. \<open>tty\<close> is not a field of the
  source: it lists, in order, the strings that \<^verbatim>\<open>print\<close> and \<^verbatim>\<open>printf\<close> have written to the
  terminal.
\<close>

record Instance =
  line :: "rune list"
  pos :: int
  prompt :: "byte list"
  modeViMode :: viMode
  viIteration :: "byte list"
  viUndoHistory :: "(byte list \<times> int) list"
  viUndoSkipAppend :: bool
  multiline :: "byte list"
  multisplit :: "byte list list"
  skipStdinRead :: bool
  searchMode :: FindMode
  modeAutoFind :: bool
  modeTabCompletion :: bool
  modeTabFind :: bool
  tcOffset :: int
  hintText :: "rune list"
  histPos :: int
  HistoryAutoWrite :: bool
  evtKeyPress :: "byte list \<Rightarrow> (byte list \<Rightarrow> rune list \<Rightarrow> int \<Rightarrow> EventReturn) option"
  SyntaxHighlighter :: "(rune list \<Rightarrow> byte list) option"
  keys :: "byte list"
  comp_rl :: "rune list"
  completer :: "completer_fn option"
  tty :: "byte list list"

text \<open>
  The methods of \<^verbatim>\<open>Instance\<close>, the collaborators and the constants that the sources call
  and do not define, taken as parameters: each method is a function on the state. Here
  \<open>rl_insert\<close>, \<open>rl_delete\<close> and \<open>vimDelete_fn\<close> are \<^verbatim>\<open>rl.insert\<close>, \<^verbatim>\<open>rl.delete\<close> and
  \<^verbatim>\<open>rl.vimDelete\<close>; \<open>historyWrite\<close> and \<open>historyLen\<close> are \<^verbatim>\<open>rl.History.Write\<close> and
  \<^verbatim>\<open>rl.History.Len\<close>; \<open>runeSlack n\<close> is the room the runtime leaves behind the last
  element of a rune slice of length \<open>n\<close> made from a string. \<^verbatim>\<open>escapeSeq\<close> is in the
  sources; no property here concerns it and it is a parameter as well.
\<close>

record helpers =
  clearHelpers :: "Instance \<Rightarrow> Instance"
  resetHelpers :: "Instance \<Rightarrow> Instance"
  updateHelpers :: "Instance \<Rightarrow> Instance"
  renderHelpers :: "Instance \<Rightarrow> Instance"
  clearLine :: "Instance \<Rightarrow> Instance"
  echo :: "Instance \<Rightarrow> Instance"
  computePrompt :: "Instance \<Rightarrow> Instance"
  resetHintText :: "Instance \<Rightarrow> Instance"
  getHintText :: "Instance \<Rightarrow> Instance"
  resetTabCompletion :: "Instance \<Rightarrow> Instance"
  resetVirtualComp :: "bool \<Rightarrow> Instance \<Rightarrow> Instance"
  getTabCompletion :: "Instance \<Rightarrow> Instance"
  moveTabCompletionHighlight :: "int \<Rightarrow> int \<Rightarrow> Instance \<Rightarrow> Instance"
  getCurrentGroup :: "Instance \<Rightarrow> TabGroup"
  updateTabFind :: "rune list \<Rightarrow> Instance \<Rightarrow> Instance"
  backspaceTabFind :: "Instance \<Rightarrow> Instance"
  backspace :: "Instance \<Rightarrow> Instance"
  undoAppendHistory :: "Instance \<Rightarrow> Instance"
  refreshVimStatus :: "Instance \<Rightarrow> Instance"
  syntaxCompletion :: "Instance \<Rightarrow> Instance"
  rl_insert :: "rune list \<Rightarrow> Instance \<Rightarrow> Instance"
  rl_delete :: "Instance \<Rightarrow> Instance"
  vi :: "rune \<Rightarrow> Instance \<Rightarrow> Instance"
  vimDelete_fn :: "rune list \<Rightarrow> Instance \<Rightarrow> Instance"
  escapeSeq :: "rune list \<Rightarrow> Instance \<Rightarrow> Instance"
  historyWrite :: "byte list \<Rightarrow> Instance \<Rightarrow> int \<times> byte list option"
  historyLen :: "Instance \<Rightarrow> int"
  runeSlack :: "nat \<Rightarrow> nat"
  charCtrlC :: byte
  charEOF :: byte
  charCtrlF :: byte
  charCtrlR :: byte
  charCtrlU :: byte
  charTab :: byte
  charBackspace :: byte
  charBackspace2 :: byte
  charEscape :: byte

text \<open>The capacity of a rune slice of length \<open>n\<close> made from a string: never below its
  length.\<close>

definition runeCap :: "helpers \<Rightarrow> nat \<Rightarrow> nat" where
  "runeCap h n = n + runeSlack h n"

text \<open>\<^verbatim>\<open>print\<close> writes a string to the terminal.\<close>

definition print :: "byte list \<Rightarrow> Instance \<Rightarrow> Instance" where
  "print s rl = rl\<lparr>tty := tty rl @ [s]\<rparr>"

subsection \<open>The interrupt handlers\<close>

text \<open>\<^verbatim>\<open>errorCtrlC\<close>: the results \<open>(read, ret, val, err)\<close> and the state.\<close>

definition errorCtrlC ::
  "helpers \<Rightarrow> rune list \<Rightarrow> Instance \<Rightarrow> (bool \<times> bool \<times> byte list \<times> rl_err option) \<times> Instance"
  where
  "errorCtrlC h r rl =
     (let rl1 = rl\<lparr>keys := []\<rparr> in
      if length (comp_rl rl1) > 0 then
        (let rl2 = resetVirtualComp h True rl1;
             rl3 = resetTabCompletion h rl2;
             rl4 = rl3\<lparr>completer := None\<rparr>
         in ((True, False, [], None), rl4))
      else
        (let val = string_of_runes (line rl1);
             rl2 = clearHelpers h rl1
         in ((False, True, val, Some ErrCtrlC), rl2)))"

text \<open>\<^verbatim>\<open>errorEOF\<close>.\<close>

definition errorEOF ::
  "helpers \<Rightarrow> rune list \<Rightarrow> Instance \<Rightarrow> (bool \<times> bool \<times> byte list \<times> rl_err option) \<times> Instance"
  where
  "errorEOF h r rl =
     (let val = string_of_runes (line rl);
          rl1 = rl\<lparr>keys := []\<rparr>;
          rl2 = clearHelpers h rl1
      in ((False, True, val, Some (IoErr IoEOF)), rl2))"

subsection \<open>\<^verbatim>\<open>editorInput\<close>, \<^verbatim>\<open>carridgeReturn\<close>, \<^verbatim>\<open>isMultiline\<close>\<close>

text \<open>The last statement of \<^verbatim>\<open>editorInput\<close>.\<close>

definition editorInputEnd :: "helpers \<Rightarrow> Instance \<Rightarrow> Instance" where
  "editorInputEnd h rl = (if length (multisplit rl) = 0 then syntaxCompletion h rl else rl)"

text \<open>\<^verbatim>\<open>editorInput\<close>. Reading \<^verbatim>\<open>r[0]\<close> of an empty \<open>r\<close> panics.\<close>

definition editorInput :: "helpers \<Rightarrow> rune list \<Rightarrow> Instance \<Rightarrow> panic + Instance" where
  "editorInput h r rl =
     (case modeViMode rl of
        vimKeys \<Rightarrow>
          (case r of
             [] \<Rightarrow> Inl IndexOutOfRange
           | c # _ \<Rightarrow> Inr (editorInputEnd h (refreshVimStatus h (vi h c rl))))
      | vimDelete \<Rightarrow> Inr (editorInputEnd h (refreshVimStatus h (vimDelete_fn h r rl)))
      | vimReplaceOnce \<Rightarrow>
          (let rl1 = rl\<lparr>modeViMode := vimKeys\<rparr>;
               rl2 = rl_delete h rl1
           in case r of
                [] \<Rightarrow> Inl IndexOutOfRange
              | c # _ \<Rightarrow> Inr (editorInputEnd h (refreshVimStatus h (rl_insert h [c] rl2))))
      | vimReplaceMany \<Rightarrow>
          Inr (editorInputEnd h (refreshVimStatus h
                 (foldl (\<lambda>s char. rl_insert h [char] (rl_delete h s)) rl r)))
      | vimInsert \<Rightarrow> Inr (editorInputEnd h (rl_insert h r rl)))"

definition crlf :: "byte list" where
  "crlf = [0x0D, 0x0A]"

definition carridgeReturn :: "helpers \<Rightarrow> Instance \<Rightarrow> Instance" where
  "carridgeReturn h rl =
     (let rl1 = clearHelpers h rl;
          rl2 = print crlf rl1
      in if HistoryAutoWrite rl2 then
           (case historyWrite h (string_of_runes (line rl2)) rl2 of
              (p, err) \<Rightarrow>
                (let rl3 = rl2\<lparr>histPos := p\<rparr>
                 in case err of
                      None \<Rightarrow> rl3
                    | Some msg \<Rightarrow> print (msg @ crlf) rl3))
         else rl2)"

definition isMultiline :: "rune list \<Rightarrow> bool" where
  "isMultiline r =
     list_ex (\<lambda>i. (r ! i = 0x0D \<or> r ! i = 0x0A) \<and> int i \<noteq> int (length r) - 1) [0..<length r]"

subsection \<open>\<^verbatim>\<open>allowMultiline\<close>\<close>

text \<open>The number \<^verbatim>\<open>%d\<close> prints.\<close>

fun decimal :: "nat \<Rightarrow> byte list" where
  "decimal n = (if n < 10 then [0x30 + of_nat n] else decimal (n div 10) @ [0x30 + of_nat (n mod 10)])"

declare decimal.simps [simp del]

definition warningMsg :: "nat \<Rightarrow> byte list" where
  "warningMsg n =
     crlf @ bytes_of ''WARNING: '' @ decimal n
     @ bytes_of '' bytes of multiline data was dumped into the shell!''"

definition proceedMsg :: "byte list" where
  "proceedMsg = crlf @ bytes_of ''Do you wish to proceed (yes|no|preview)? [y/n/p] ''"

definition invalidMsg :: "byte list" where
  "invalidMsg =
     crlf @ bytes_of ''Invalid response. Please answer '' @ [0x60, 0x79, 0x60]
     @ bytes_of '' (yes), '' @ [0x60, 0x6E, 0x60] @ bytes_of '' (no) or '' @ [0x60, 0x70, 0x60]
     @ bytes_of '' (preview)''"

text \<open>\<^verbatim>\<open>bytes.Replace(data, "\r", "\r\n", -1)\<close>.\<close>

definition replaceCR :: "byte list \<Rightarrow> byte list" where
  "replaceCR data = concat (map (\<lambda>b. if b = 0x0D then [0x0D, 0x0A] else [b]) data)"

text \<open>The preview: the data with a line feed after each carriage return, through the
  syntax highlighter when there is one.\<close>

definition previewText :: "Instance \<Rightarrow> byte list \<Rightarrow> byte list" where
  "previewText rl data =
     (let preview = replaceCR data in
      case SyntaxHighlighter rl of
        None \<Rightarrow> preview
      | Some f \<Rightarrow> f (runes_of_string preview))"

text \<open>
  The loop of \<^verbatim>\<open>allowMultiline\<close>: each turn prints the question and reads an answer from
  the device. \<open>None\<close> when the device has nothing more to read.
\<close>

fun allowLoop ::
  "Instance \<Rightarrow> byte list \<Rightarrow> read_result list \<Rightarrow> (bool \<times> Instance \<times> read_result list) option"
  where
  "allowLoop rl data [] = None"
| "allowLoop rl data ((s, err) # dev) =
     (let rl1 = print proceedMsg rl in
      if err \<noteq> None then Some (False, rl1, dev)
      else
        (let rl2 = print s rl1 in
         if s = [0x79] \<or> s = [0x59] then Some (True, print (crlf @ prompt rl2) rl2, dev)
         else if s = [0x6E] \<or> s = [0x4E] then Some (False, print (crlf @ prompt rl2) rl2, dev)
         else if s = [0x70] \<or> s = [0x50] then
           allowLoop (print (crlf @ previewText rl2 data) rl2) data dev
         else allowLoop (print invalidMsg rl2) data dev))"

definition allowMultiline ::
  "helpers \<Rightarrow> Instance \<Rightarrow> byte list \<Rightarrow> read_result list \<Rightarrow>
     (bool \<times> Instance \<times> read_result list) option" where
  "allowMultiline h rl data dev =
     allowLoop (print (warningMsg (length data)) (clearHelpers h rl)) data dev"

subsection \<open>\<^verbatim>\<open>Readline\<close>\<close>

text \<open>
  \<^verbatim>\<open>rxMultiline.Split(s, -1)\<close> for \<^verbatim>\<open>[\r\n]+\<close>: the pieces between the runs of line breaks,
  an empty piece before a leading run and after a trailing one. The flag says that the
  byte before was a line break.
\<close>

fun splitRuns :: "byte list \<Rightarrow> bool \<Rightarrow> byte list \<Rightarrow> byte list list" where
  "splitRuns cur inSep [] = [cur]"
| "splitRuns cur inSep (x # xs) =
     (if x = 0x0D \<or> x = 0x0A then
        (if inSep then splitRuns cur True xs else cur # splitRuns [] True xs)
      else splitRuns (cur @ [x]) False xs)"

definition rxSplit :: "byte list \<Rightarrow> byte list list" where
  "rxSplit s = splitRuns [] False s"

text \<open>How a turn of the loop of \<^verbatim>\<open>Readline\<close> ends: with \<^verbatim>\<open>continue\<close> (or at the end of the
  body), with a \<^verbatim>\<open>return\<close>, with a panic, or never, waiting for the device.\<close>

datatype step =
    Continue Instance "read_result list"
  | Return "byte list" "rl_err option" Instance "read_result list"
  | Panicked panic
  | Blocked

text \<open>The block that runs a key-press handler (\<^verbatim>\<open>if rl.evtKeyPress[s] != nil\<close>): it ends the
  turn, closes the line, or goes on to the switch.\<close>

datatype event_result = EvForward Instance | EvContinue Instance | EvClose Instance | EvPanic

definition keyPressEvent :: "helpers \<Rightarrow> byte list \<Rightarrow> Instance \<Rightarrow> event_result" where
  "keyPressEvent h s rl =
     (if evtKeyPress rl s \<noteq> None then
        (let rl1 = clearHelpers h rl in
         case evtKeyPress rl1 s of
           None \<Rightarrow> EvPanic
         | Some f \<Rightarrow>
             (let ret = f s (line rl1) (pos rl1);
                  rl2 = clearLine h rl1;
                  rl3 = rl2\<lparr>line := NewLine ret\<rparr>;
                  rl4 = echo h rl3;
                  rl5 = rl4\<lparr>pos := NewPos ret\<rparr>;
                  rl6 = (if ClearHelpers ret then resetHelpers h rl5
                         else renderHelpers h (updateHelpers h rl5));
                  rl7 = (if length (HintText ret) > 0
                         then renderHelpers h (clearHelpers h (rl6\<lparr>hintText := HintText ret\<rparr>))
                         else rl6)
              in if \<not> ForwardKey ret then EvContinue rl7
                 else if CloseReadline ret then EvClose (clearHelpers h rl7)
                 else EvForward rl7))
      else EvForward rl)"

text \<open>The switch on \<^verbatim>\<open>b[0]\<close> and the call of \<^verbatim>\<open>undoAppendHistory\<close> that ends the body.\<close>

definition dispatchKey ::
  "helpers \<Rightarrow> byte \<Rightarrow> rune list \<Rightarrow> Instance \<Rightarrow> read_result list \<Rightarrow> step" where
  "dispatchKey h b0 ri rl dev =
     (if b0 = charCtrlC h then Return [] (Some CtrlC) (clearHelpers h rl) dev
      else if b0 = charEOF h then Return [] (Some EOF) (clearHelpers h rl) dev
      else if b0 = charCtrlF h then
        (let rl1 = rl\<lparr>searchMode := CompletionFind, modeAutoFind := True\<rparr>;
             rl2 = (if modeTabCompletion rl1 \<and> searchMode rl1 = HistoryFind
                    then rl1\<lparr>searchMode := CompletionFind\<rparr> else rl1);
             rl3 = updateTabFind h [] rl2
         in Continue (undoAppendHistory h (rl3\<lparr>viUndoSkipAppend := True\<rparr>)) dev)
      else if b0 = charCtrlR h then
        (let rl1 = rl\<lparr>searchMode := HistoryFind, modeAutoFind := True, tcOffset := 0,
                      modeTabCompletion := True, modeTabFind := True\<rparr>;
             rl2 = updateTabFind h [] rl1
         in Continue (undoAppendHistory h (rl2\<lparr>viUndoSkipAppend := True\<rparr>)) dev)
      else if b0 = charCtrlU h then
        Continue (undoAppendHistory h (resetHelpers h (clearLine h rl))) dev
      else if b0 = charTab h then
        (let rl1 = (if modeTabCompletion rl then moveTabCompletionHighlight h 1 0 rl
                    else getTabCompletion h rl);
             rl2 = renderHelpers h rl1
         in Continue (undoAppendHistory h (rl2\<lparr>viUndoSkipAppend := True\<rparr>)) dev)
      else if b0 = 0x0D \<or> b0 = 0x0A then
        (if modeTabCompletion rl then
           (let cur = getCurrentGroup h rl;
                cell = tcMaxX cur * (tcPosY cur - 1) + tcOffset_cur cur + tcPosX cur - 1;
                rl1 = renderHelpers h (resetTabCompletion h (clearHelpers h rl))
            in if cell < 0 \<or> int (length (Suggestions cur)) \<le> cell then Panicked IndexOutOfRange
               else Continue (rl_insert h (runes_of_string (Suggestions cur ! nat cell)) rl1) dev)
         else
           (let rl1 = carridgeReturn h rl
            in Return (string_of_runes (line rl1)) None rl1 dev))
      else if b0 = charBackspace h \<or> b0 = charBackspace2 h then
        (if modeTabFind rl \<or> modeAutoFind rl then
           Continue (undoAppendHistory h ((backspaceTabFind h rl)\<lparr>viUndoSkipAppend := True\<rparr>)) dev
         else Continue (undoAppendHistory h (renderHelpers h (backspace h rl))) dev)
      else if b0 = charEscape h then
        Continue (undoAppendHistory h (escapeSeq h ri rl)) dev
      else if modeAutoFind rl \<or> modeTabFind rl \<and> searchMode rl = CompletionFind then
        Continue (undoAppendHistory h ((updateTabFind h ri rl)\<lparr>viUndoSkipAppend := True\<rparr>)) dev
      else
        (case editorInput h ri rl of
           Inl p \<Rightarrow> Panicked p
         | Inr rl1 \<Rightarrow>
             (let rl2 = (if length (multiline rl1) > 0 \<and> modeViMode rl1 = vimKeys
                         then rl1\<lparr>skipStdinRead := True\<rparr> else rl1)
              in Continue (undoAppendHistory h rl2) dev)))"

text \<open>The two statements that drop the first of \<open>multisplit\<close>.\<close>

definition shiftMultisplit :: "Instance \<Rightarrow> Instance" where
  "shiftMultisplit rl =
     (if length (multisplit rl) > 1 then rl\<lparr>multisplit := tl (multisplit rl)\<rparr>
      else rl\<lparr>multisplit := []\<rparr>)"

text \<open>
  The body of \<^verbatim>\<open>if isMultiline(r[:i]) || len(rl.multiline) > 0\<close>; \<open>data\<close> is \<^verbatim>\<open>b[:i]\<close>, the
  bytes just read, and the buffer \<^verbatim>\<open>b\<close> has 1024 bytes. \<open>acceptMultiline\<close> is its end, from
  \<^verbatim>\<open>s := string(rl.multiline)\<close> on, where the answer was yes.
\<close>

definition acceptMultiline :: "helpers \<Rightarrow> Instance \<Rightarrow> read_result list \<Rightarrow> step" where
  "acceptMultiline h rl2 dev2 =
     (let rl3 = rl2\<lparr>multisplit := rxSplit (multiline rl2)\<rparr> in
      case multisplit rl3 of
        [] \<Rightarrow> Panicked IndexOutOfRange
      | l0 # _ \<Rightarrow>
          (case editorInput h (runes_of_string l0) (rl3\<lparr>modeViMode := vimInsert\<rparr>) of
             Inl p \<Rightarrow> Panicked p
           | Inr rl5 \<Rightarrow>
               (let rl6 = carridgeReturn h rl5;
                    rl7 = shiftMultisplit (rl6\<lparr>multiline := []\<rparr>)
                in Return (string_of_runes (line rl7)) None rl7 dev2)))"

definition multilineBranch ::
  "helpers \<Rightarrow> Instance \<Rightarrow> byte list \<Rightarrow> read_result list \<Rightarrow> step" where
  "multilineBranch h rl data dev =
     (let rl1 = rl\<lparr>multiline := multiline rl @ data\<rparr> in
      if length data = 1024 then Continue rl1 dev
      else
        (case allowMultiline h rl1 (multiline rl1) dev of
           None \<Rightarrow> Blocked
         | Some (ok, rl2, dev2) \<Rightarrow>
             (if \<not> ok then Continue (rl2\<lparr>multiline := []\<rparr>) dev2
              else acceptMultiline h rl2 dev2)))"

text \<open>
  The body of the loop from \<^verbatim>\<open>r := []rune(string(b))\<close> on; \<open>data\<close> is what was read into
  the buffer of 1024 zero bytes, nothing when the read was skipped. \<^verbatim>\<open>r[:i]\<close> takes \<open>i\<close>, a
  count of bytes, as a count of runes: it panics when \<open>i\<close> is above the capacity of \<open>r\<close>,
  and the runes it takes beyond the length of \<open>r\<close> are zero.
\<close>

definition afterRead :: "helpers \<Rightarrow> Instance \<Rightarrow> byte list \<Rightarrow> read_result list \<Rightarrow> step" where
  "afterRead h rl data dev =
     (let i = length data;
          b = data @ replicate (1024 - i) 0;
          r = runes_of_string b
      in if i > runeCap h (length r) then Panicked SliceBounds
         else
           (let ri = take i (r @ replicate (i - length r) 0) in
            if isMultiline ri \<or> length (multiline rl) > 0 then multilineBranch h rl data dev
            else
              (case keyPressEvent h (string_of_runes ri) rl of
                 EvPanic \<Rightarrow> Panicked NilFunc
               | EvContinue rl1 \<Rightarrow> Continue rl1 dev
               | EvClose rl1 \<Rightarrow> Return (string_of_runes (line rl1)) None rl1 dev
               | EvForward rl1 \<Rightarrow> dispatchKey h (b ! 0) ri rl1 dev)))"

text \<open>One turn of the loop of \<^verbatim>\<open>Readline\<close>.\<close>

definition loopBody :: "helpers \<Rightarrow> Instance \<Rightarrow> read_result list \<Rightarrow> step" where
  "loopBody h rl0 dev =
     (let rl = rl0\<lparr>viUndoSkipAppend := False\<rparr> in
      if \<not> skipStdinRead rl then
        (case dev of
           [] \<Rightarrow> Blocked
         | (data, err) # dev' \<Rightarrow>
             (case err of
                Some e \<Rightarrow> Return [] (Some (IoErr e)) rl dev'
              | None \<Rightarrow> afterRead h (rl\<lparr>skipStdinRead := False\<rparr>) data dev'))
      else afterRead h (rl\<lparr>skipStdinRead := False\<rparr>) [] dev)"

text \<open>The loop, for at most so many turns: \<open>None\<close> when they do not suffice.\<close>

fun readLoop :: "nat \<Rightarrow> helpers \<Rightarrow> Instance \<Rightarrow> read_result list \<Rightarrow> step option" where
  "readLoop 0 h rl dev = None"
| "readLoop (Suc n) h rl dev =
     (case loopBody h rl dev of
        Continue rl' dev' \<Rightarrow> readLoop n h rl' dev'
      | Return v e rl' dev' \<Rightarrow> Some (Return v e rl' dev')
      | Panicked p \<Rightarrow> Some (Panicked p)
      | Blocked \<Rightarrow> Some Blocked)"

text \<open>\<^verbatim>\<open>Readline\<close>; \<open>rawErr\<close> is the error of \<^verbatim>\<open>MakeRaw\<close>, if any.\<close>

definition Readline ::
  "nat \<Rightarrow> helpers \<Rightarrow> bool \<Rightarrow> Instance \<Rightarrow> read_result list \<Rightarrow> step option" where
  "Readline fuel h rawErr rl dev =
     (if rawErr then Some (Return [] (Some TermErr) rl dev)
      else
        (let rl1 = rl\<lparr>line := [], viUndoHistory := [([], 0)], pos := 0\<rparr>;
             rl2 = rl1\<lparr>histPos := historyLen h rl1\<rparr>;
             rl3 = rl2\<lparr>modeViMode := vimInsert\<rparr>;
             rl4 = resetTabCompletion h (resetHintText h (computePrompt h rl3))
         in case multisplit rl4 of
              l0 # _ \<Rightarrow>
                (case editorInput h (runes_of_string l0) rl4 of
                   Inl p \<Rightarrow> Some (Panicked p)
                 | Inr rl5 \<Rightarrow>
                     (let rl6 = shiftMultisplit (carridgeReturn h rl5)
                      in Some (Return (string_of_runes (line rl6)) None rl6 dev)))
            | [] \<Rightarrow> readLoop fuel h (renderHelpers h (getHintText h rl4)) dev))"

section \<open>Notions used in the properties\<close>

text \<open>A state with nothing in it, for the examples.\<close>

definition emptyKeys :: Keys where
  "emptyKeys =
     \<lparr>buf = [], matched = [], matchedLen = 0, macroKeys = [], mustWait = False,
      waiting = False, reading = False\<rparr>"

text \<open>
  What a read is to the loop of \<^verbatim>\<open>GetCursorPos\<close>. It is ordinary input when it has no
  error, is not empty and holds no cursor response: the loop appends it to \<open>buf\<close> and reads
  again. Any other read ends the loop. Such a read is degraded when it has an error, is
  empty, or holds a response whose row or column \<^verbatim>\<open>Atoi\<close> refuses.
\<close>

definition ordinaryInput :: "read_result \<Rightarrow> bool" where
  "ordinaryInput rd = (case rd of (c, err) \<Rightarrow> err = None \<and> c \<noteq> [] \<and> findCursor c = None)"

definition degraded :: "read_result \<Rightarrow> bool" where
  "degraded rd =
     (case rd of
        (c, err) \<Rightarrow>
          err \<noteq> None \<or> c = [] \<or>
          (case findCursor c of
             None \<Rightarrow> False
           | Some (pre, g1, g2, post) \<Rightarrow> Atoi g1 = None \<or> Atoi g2 = None))"

definition cursorMatch :: "read_result \<Rightarrow> (byte list \<times> byte list) option" where
  "cursorMatch rd =
     (case rd of
        (c, err) \<Rightarrow>
          (if err \<noteq> None \<or> c = [] then None
           else (case findCursor c of
                   None \<Rightarrow> None
                 | Some (pre, g1, g2, post) \<Rightarrow> Some (g1, g2))))"

text \<open>
  What an answer is to the loop of \<^verbatim>\<open>allowMultiline\<close>: yes (\<^verbatim>\<open>y\<close> or \<^verbatim>\<open>Y\<close>, read without
  error), no (\<^verbatim>\<open>n\<close> or \<^verbatim>\<open>N\<close>, or a read that failed), or any other, which asks again.
  \<open>turnOutput\<close> is what one turn of the loop prints for an answer.
\<close>

definition yesAnswer :: "read_result \<Rightarrow> bool" where
  "yesAnswer rd = (case rd of (s, err) \<Rightarrow> err = None \<and> (s = [0x79] \<or> s = [0x59]))"

definition noAnswer :: "read_result \<Rightarrow> bool" where
  "noAnswer rd = (case rd of (s, err) \<Rightarrow> err \<noteq> None \<or> s = [0x6E] \<or> s = [0x4E])"

definition otherAnswer :: "read_result \<Rightarrow> bool" where
  "otherAnswer rd = (\<not> yesAnswer rd \<and> \<not> noAnswer rd)"

definition turnOutput :: "Instance \<Rightarrow> byte list \<Rightarrow> read_result \<Rightarrow> byte list list" where
  "turnOutput rl data rd =
     (case rd of
        (s, err) \<Rightarrow>
          (if err \<noteq> None then [proceedMsg]
           else if s = [0x79] \<or> s = [0x59] \<or> s = [0x6E] \<or> s = [0x4E]
             then [proceedMsg, s, crlf @ prompt rl]
           else if s = [0x70] \<or> s = [0x50] then [proceedMsg, s, crlf @ previewText rl data]
           else [proceedMsg, s, invalidMsg]))"

text \<open>The methods that \<^verbatim>\<open>editorInput\<close> calls in the replace modes leave \<open>modeViMode\<close> as
  it is.\<close>

definition keepsMode :: "helpers \<Rightarrow> bool" where
  "keepsMode h =
     ((\<forall>s. modeViMode (rl_delete h s) = modeViMode s) \<and>
      (\<forall>r s. modeViMode (rl_insert h r s) = modeViMode s) \<and>
      (\<forall>s. modeViMode (refreshVimStatus h s) = modeViMode s) \<and>
      (\<forall>s. modeViMode (syntaxCompletion h s) = modeViMode s))"

text \<open>
  An instance of the parameters, for the examples; it is not taken from the sources.
  \<open>rl_insert\<close> puts the runes at the cursor and moves the cursor behind them, \<open>rl_delete\<close>
  removes the rune at the cursor, every other method leaves the state as it is, a rune
  slice has no room behind its last element, and the keys have their ASCII codes.
\<close>

definition plainHelpers :: helpers where
  "plainHelpers =
     \<lparr>clearHelpers = (\<lambda>s. s), resetHelpers = (\<lambda>s. s), updateHelpers = (\<lambda>s. s),
      renderHelpers = (\<lambda>s. s), clearLine = (\<lambda>s. s), echo = (\<lambda>s. s),
      computePrompt = (\<lambda>s. s), resetHintText = (\<lambda>s. s), getHintText = (\<lambda>s. s),
      resetTabCompletion = (\<lambda>s. s), resetVirtualComp = (\<lambda>b s. s),
      getTabCompletion = (\<lambda>s. s), moveTabCompletionHighlight = (\<lambda>x y s. s),
      getCurrentGroup = (\<lambda>s. \<lparr>tcMaxX = 0, tcPosY = 0, tcPosX = 0, tcOffset_cur = 0,
                               Suggestions = []\<rparr>),
      updateTabFind = (\<lambda>r s. s), backspaceTabFind = (\<lambda>s. s), backspace = (\<lambda>s. s),
      undoAppendHistory = (\<lambda>s. s), refreshVimStatus = (\<lambda>s. s),
      syntaxCompletion = (\<lambda>s. s),
      rl_insert = (\<lambda>r s. s\<lparr>line := take (nat (pos s)) (line s) @ r @ drop (nat (pos s)) (line s),
                             pos := pos s + int (length r)\<rparr>),
      rl_delete = (\<lambda>s. s\<lparr>line := take (nat (pos s)) (line s) @ drop (Suc (nat (pos s))) (line s)\<rparr>),
      vi = (\<lambda>c s. s), vimDelete_fn = (\<lambda>r s. s), escapeSeq = (\<lambda>r s. s),
      historyWrite = (\<lambda>l s. (0, None)), historyLen = (\<lambda>s. 0), runeSlack = (\<lambda>n. 0),
      charCtrlC = 3, charEOF = 4, charCtrlF = 6, charCtrlR = 18, charCtrlU = 21, charTab = 9,
      charBackspace = 8, charBackspace2 = 127, charEscape = 27\<rparr>"

text \<open>A state at the start of a line, for the examples.\<close>

definition emptyInstance :: Instance where
  "emptyInstance =
     \<lparr>line = [], pos = 0, prompt = [0x3E, 0x20], modeViMode = vimInsert, viIteration = [],
      viUndoHistory = [([], 0)], viUndoSkipAppend = False, multiline = [], multisplit = [],
      skipStdinRead = False, searchMode = HistoryFind, modeAutoFind = False,
      modeTabCompletion = False, modeTabFind = False, tcOffset = 0, hintText = [],
      histPos = 0, HistoryAutoWrite = False, evtKeyPress = (\<lambda>s. None),
      SyntaxHighlighter = None, keys = [], comp_rl = [], completer = None, tty = []\<rparr>"

text \<open>The paste \<^verbatim>\<open>"line1\nline2"\<close>.\<close>

definition pasteExample :: "byte list" where
  "pasteExample = [0x6C, 0x69, 0x6E, 0x65, 0x31, 0x0A, 0x6C, 0x69, 0x6E, 0x65, 0x32]"

text \<open>
  Two more pastes: \<^verbatim>\<open>"a\n"\<close> and 1022 times \<^verbatim>\<open>a\<close>, which fills the buffer of 1024 bytes;
  and 500 times the letter e with an acute accent (two bytes each in UTF-8), then
  \<^verbatim>\<open>"\nx"\<close>, 1002 bytes in all.
\<close>

definition fullPaste :: "byte list" where
  "fullPaste = [0x61, 0x0A] @ replicate 1022 0x61"

definition widePaste :: "byte list" where
  "widePaste = concat (replicate 500 [0xC3, 0xA9]) @ [0x0A, 0x78]"

text \<open>
  What \<^verbatim>\<open>[]rune(string(rs))\<close> makes of a rune: itself when it is a Unicode scalar value,
  U+FFFD otherwise.
\<close>

definition validRune :: "rune \<Rightarrow> rune" where
  "validRune r =
     (if unat r > 0x10FFFF \<or> (0xD800 \<le> unat r \<and> unat r \<le> 0xDFFF) then runeError else r)"



section \<open>Properties of the string conversions\<close>

lemma decoderune_cont:
  "decoderune (b # s) = (r, n) \<Longrightarrow> 1 \<le> n \<and> n - 1 \<le> length s \<and> (\<forall>m < n - 1. contb (s ! m))"
  by (auto simp: Let_def less_Suc_eq nth_Cons' split: if_splits list.splits)

lemma runes_of_string_keeps_ascii:
  "j < length bs \<Longrightarrow> bs ! j = c \<Longrightarrow> c < 0x80 \<Longrightarrow>
   \<exists>j' \<le> j. j' < length (runes_of_string bs) \<and> runes_of_string bs ! j' = ucast c"
proof (induction bs arbitrary: j rule: runes_of_string.induct)
  case 1
  then show ?case by simp
next
  case (2 b bs)
  show ?case
  proof (cases j)
    case 0
    then have "b = c" using "2.prems" by simp
    then show ?thesis using "2.prems"(3) by (intro exI [of _ 0]) simp
  next
    case (Suc j0)
    show ?thesis
    proof (cases "b < 0x80")
      case True
      from "2.IH"(1) [OF True, of j0] "2.prems" Suc
      obtain j' where "j' \<le> j0" "j' < length (runes_of_string bs)"
        "runes_of_string bs ! j' = ucast c"
        by auto
      then show ?thesis using True Suc by (intro exI [of _ "Suc j'"]) simp
    next
      case False
      obtain r n where d: "decoderune (b # bs) = (r, n)" by (cases "decoderune (b # bs)")
      from decoderune_cont [OF d] have n: "1 \<le> n" "n - 1 \<le> length bs"
        "\<forall>m < n - 1. contb (bs ! m)" by auto
      have "\<not> contb c" using "2.prems"(3) by (simp add: contb_def not_le)
      moreover have "bs ! j0 = c" using "2.prems"(2) Suc by simp
      ultimately have ge: "n - 1 \<le> j0" using n(3) by (metis not_le)
      have "j0 - (n - 1) < length (drop (n - 1) bs)" using "2.prems"(1) Suc ge by simp
      moreover have "drop (n - 1) bs ! (j0 - (n - 1)) = c"
        using \<open>bs ! j0 = c\<close> ge n(2) by simp
      ultimately obtain j' where j': "j' \<le> j0 - (n - 1)"
        "j' < length (runes_of_string (drop (n - 1) bs))"
        "runes_of_string (drop (n - 1) bs) ! j' = ucast c"
        using "2.IH"(2) [OF False d [symmetric], of "j0 - (n - 1)"] "2.prems"(3) by blast
      then show ?thesis using False d Suc by (intro exI [of _ "Suc j'"]) simp
    qed
  qed
qed

lemma runes_of_string_ascii:
  "list_all (\<lambda>b. b < 0x80) bs \<Longrightarrow> runes_of_string bs = map ucast bs"
  by (induction bs) simp_all

lemma ascii_rune: "(c :: byte) < 0x80 \<Longrightarrow> encoderune (ucast c) = [c]"
proof -
  assume "c < 0x80"
  then have "unat c < 128" by (simp add: word_less_nat_alt)
  moreover have "uint (ucast c :: rune) = uint c"
    by (rule uint_up_ucast) (simp add: is_up)
  then have "unat (ucast c :: rune) = unat c"
    by (simp only: unat_eq_nat_uint)
  moreover have "(ucast (ucast c :: rune) :: byte) = c"
    by (rule ucast_up_ucast_id) (simp add: is_up)
  ultimately show ?thesis by (simp add: encoderune_def)
qed

lemma string_of_runes_ascii:
  "list_all (\<lambda>b. b < 0x80) bs \<Longrightarrow> string_of_runes (map ucast bs) = bs"
  by (induction bs) (simp_all add: string_of_runes_def ascii_rune)

subsection \<open>Writing runes in UTF-8 and reading them back\<close>

lemma bits_below: "unat (r :: 'a :: len word) < 2 ^ k \<Longrightarrow> bit r n \<Longrightarrow> n < k"
proof -
  assume a: "unat r < 2 ^ k" and b: "bit r n"
  from a have "take_bit k (unat r) = unat r" by (simp add: take_bit_nat_eq_self_iff)
  then have "take_bit k r = r"
    by (metis unsigned_take_bit_eq word_unat_eq_iff)
  with b have "bit (take_bit k r) n" by simp
  then show ?thesis by (simp add: bit_take_bit_iff)
qed

lemma small_word: "(\<And>n. bit (w :: 'a :: len word) n \<Longrightarrow> n < k) \<Longrightarrow> unat w < 2 ^ k"
proof -
  assume a: "\<And>n. bit w n \<Longrightarrow> n < k"
  have "take_bit k w = w"
    by (rule bit_word_eqI) (auto simp: bit_take_bit_iff dest: a)
  then have "take_bit k (unat w) = unat w"
    by (metis unsigned_take_bit_eq)
  then show ?thesis by (simp add: take_bit_nat_eq_self_iff)
qed

lemma or_add: "a AND b = 0 \<Longrightarrow> unat a + unat b < 256 \<Longrightarrow> unat (a OR b :: byte) = unat a + unat b"
proof -
  assume a: "a AND b = 0" and b: "unat a + unat b < 256"
  from a have "a OR b = a + b" by (simp add: disjunctive_add_eq_or)
  moreover have "unat (a + b) = unat a + unat b"
    using b by (simp add: unat_add_lem [THEN iffD1])
  ultimately show ?thesis by simp
qed

lemma numbits:
  "bit (0xC0 :: 'a :: len word) n = ((n = 6 \<or> n = 7) \<and> n < LENGTH('a))"
  "bit (0x80 :: 'a :: len word) n = (n = 7 \<and> n < LENGTH('a))"
  "bit (0xE0 :: 'a :: len word) n = ((n = 5 \<or> n = 6 \<or> n = 7) \<and> n < LENGTH('a))"
  "bit (0xF0 :: 'a :: len word) n = ((n = 4 \<or> n = 5 \<or> n = 6 \<or> n = 7) \<and> n < LENGTH('a))"
  "bit (0x3F :: 'a :: len word) n = (n < 6 \<and> n < LENGTH('a))"
  "bit (0x1F :: 'a :: len word) n = (n < 5 \<and> n < LENGTH('a))"
  "bit (0x0F :: 'a :: len word) n = (n < 4 \<and> n < LENGTH('a))"
  "bit (0x07 :: 'a :: len word) n = (n < 3 \<and> n < LENGTH('a))"
  "bit (0xF8 :: 'a :: len word) n = ((n = 3 \<or> n = 4 \<or> n = 5 \<or> n = 6 \<or> n = 7) \<and> n < LENGTH('a))"
proof -
  have e: "(0xC0 :: 'a word) = push_bit 6 (mask 2)" "(0x80 :: 'a word) = push_bit 7 (mask 1)"
    "(0xE0 :: 'a word) = push_bit 5 (mask 3)" "(0xF0 :: 'a word) = push_bit 4 (mask 4)"
    "(0x3F :: 'a word) = mask 6" "(0x1F :: 'a word) = mask 5" "(0x0F :: 'a word) = mask 4"
    "(0x07 :: 'a word) = mask 3" "(0xF8 :: 'a word) = push_bit 3 (mask 5)"
    by (simp_all add: mask_eq_exp_minus_1)
  show "bit (0xF8 :: 'a :: len word) n = ((n = 3 \<or> n = 4 \<or> n = 5 \<or> n = 6 \<or> n = 7) \<and> n < LENGTH('a))"
    unfolding e by (simp only: bit_simps) auto
  show "bit (0xC0 :: 'a :: len word) n = ((n = 6 \<or> n = 7) \<and> n < LENGTH('a))"
    unfolding e by (simp only: bit_simps) auto
  show "bit (0x80 :: 'a :: len word) n = (n = 7 \<and> n < LENGTH('a))"
    unfolding e by (simp only: bit_simps) auto
  show "bit (0xE0 :: 'a :: len word) n = ((n = 5 \<or> n = 6 \<or> n = 7) \<and> n < LENGTH('a))"
    unfolding e by (simp only: bit_simps) auto
  show "bit (0xF0 :: 'a :: len word) n = ((n = 4 \<or> n = 5 \<or> n = 6 \<or> n = 7) \<and> n < LENGTH('a))"
    unfolding e by (simp only: bit_simps) auto
  show "bit (0x3F :: 'a :: len word) n = (n < 6 \<and> n < LENGTH('a))"
    unfolding e by (simp only: bit_simps) auto
  show "bit (0x1F :: 'a :: len word) n = (n < 5 \<and> n < LENGTH('a))"
    unfolding e by (simp only: bit_simps) auto
  show "bit (0x0F :: 'a :: len word) n = (n < 4 \<and> n < LENGTH('a))"
    unfolding e by (simp only: bit_simps) auto
  show "bit (0x07 :: 'a :: len word) n = (n < 3 \<and> n < LENGTH('a))"
    unfolding e by (simp only: bit_simps) auto
qed

lemma numbits_int:
  "bit (0xC0 :: int) n = (n = 6 \<or> n = 7)"
  "bit (0x80 :: int) n = (n = 7)"
  "bit (0xE0 :: int) n = (n = 5 \<or> n = 6 \<or> n = 7)"
  "bit (0xF0 :: int) n = (n = 4 \<or> n = 5 \<or> n = 6 \<or> n = 7)"
  "bit (0x3F :: int) n = (n < 6)"
  "bit (0x1F :: int) n = (n < 5)"
  "bit (0x0F :: int) n = (n < 4)"
  "bit (0x07 :: int) n = (n < 3)"
  "bit (0xF8 :: int) n = (n = 3 \<or> n = 4 \<or> n = 5 \<or> n = 6 \<or> n = 7)"
proof -
  have e: "(0xC0 :: int) = push_bit 6 (mask 2)" "(0x80 :: int) = push_bit 7 (mask 1)"
    "(0xE0 :: int) = push_bit 5 (mask 3)" "(0xF0 :: int) = push_bit 4 (mask 4)"
    "(0x3F :: int) = mask 6" "(0x1F :: int) = mask 5" "(0x0F :: int) = mask 4"
    "(0x07 :: int) = mask 3" "(0xF8 :: int) = push_bit 3 (mask 5)"
    by (simp_all add: mask_eq_exp_minus_1)
  show "bit (0xF8 :: int) n = (n = 3 \<or> n = 4 \<or> n = 5 \<or> n = 6 \<or> n = 7)"
    unfolding e by (simp only: bit_simps) auto
  show "bit (0xC0 :: int) n = (n = 6 \<or> n = 7)"
    unfolding e by (simp only: bit_simps) auto
  show "bit (0x80 :: int) n = (n = 7)"
    unfolding e by (simp only: bit_simps) auto
  show "bit (0xE0 :: int) n = (n = 5 \<or> n = 6 \<or> n = 7)"
    unfolding e by (simp only: bit_simps) auto
  show "bit (0xF0 :: int) n = (n = 4 \<or> n = 5 \<or> n = 6 \<or> n = 7)"
    unfolding e by (simp only: bit_simps) auto
  show "bit (0x3F :: int) n = (n < 6)"
    unfolding e by (simp only: bit_simps) auto
  show "bit (0x1F :: int) n = (n < 5)"
    unfolding e by (simp only: bit_simps) auto
  show "bit (0x0F :: int) n = (n < 4)"
    unfolding e by (simp only: bit_simps) auto
  show "bit (0x07 :: int) n = (n < 3)"
    unfolding e by (simp only: bit_simps) auto
qed

lemma cont_byte:
  fixes w :: byte
  shows "contb (0x80 OR (w AND 0x3F))" and "(0x80 OR (w AND 0x3F)) AND 0x3F = w AND 0x3F"
proof -
  have d: "0x80 AND (w AND 0x3F) = 0"
    by (rule bit_word_eqI) (auto simp: bit_simps numbits numbits_int)
  have "unat (w AND 0x3F) < 2 ^ 6"
    by (rule small_word) (auto simp: bit_simps numbits numbits_int)
  then have u: "unat (0x80 OR (w AND 0x3F)) = 128 + unat (w AND 0x3F)" "unat (w AND 0x3F) < 64"
    using or_add [OF d] by simp_all
  then show "contb (0x80 OR (w AND 0x3F))"
    by (simp add: contb_def word_le_nat_alt)
  show "(0x80 OR (w AND 0x3F)) AND 0x3F = w AND 0x3F"
    by (rule bit_word_eqI) (auto simp: bit_simps numbits numbits_int)
qed

lemma lead2:
  fixes x :: byte
  assumes "unat x < 32"
  shows "0xC0 \<le> (0xC0 OR x) \<and> (0xC0 OR x) < 0xE0 \<and> \<not> (0xC0 OR x) < 0x80"
    and "(0xC0 OR x) AND 0x1F = x"
proof -
  have b: "bit x n \<Longrightarrow> n < 5" for n using bits_below [of x 5 n] assms by simp
  have d: "0xC0 AND x = 0"
    by (rule bit_word_eqI) (auto simp: bit_simps numbits numbits_int dest: b)
  have "unat (0xC0 OR x) = 192 + unat x"
    using or_add [OF d] assms by simp
  then show "0xC0 \<le> (0xC0 OR x) \<and> (0xC0 OR x) < 0xE0 \<and> \<not> (0xC0 OR x) < 0x80"
    using assms by (simp add: word_le_nat_alt word_less_nat_alt)
  show "(0xC0 OR x) AND 0x1F = x"
    by (rule bit_word_eqI) (auto simp: bit_simps numbits numbits_int dest: b)
qed

lemma enc2:
  assumes "\<not> unat r \<le> 0x7F" and "unat r \<le> 0x7FF"
  shows "runes_of_string (encoderune r @ bs) = r # runes_of_string bs"
proof -
  let ?x = "ucast (drop_bit 6 r) :: byte"
  let ?b0 = "0xC0 OR ?x"
  let ?b1 = "0x80 OR (ucast r AND 0x3F) :: byte"
  have r11: "unat r < 2 ^ 11" using assms(2) by simp
  have rb: "bit r n \<Longrightarrow> n < 11" for n using bits_below [OF r11] .
  have "unat ?x < 2 ^ 5"
    by (rule small_word) (auto simp: bit_simps dest: rb)
  then have x: "unat ?x < 32" by simp
  note l = lead2 [OF x]
  note c = cont_byte [of "ucast r"]
  have dec: "push_bit 6 (ucast ?x) OR ucast (ucast r AND 0x3F :: byte) = r"
    by (rule bit_word_eqI) (auto simp: bit_simps numbits numbits_int dest: rb)
  have big: "(0x7F :: rune) < r"
    using assms(1) by (simp add: word_less_nat_alt)
  have e: "encoderune r = [?b0, ?b1]"
    using assms by (simp add: encoderune_def)
  show ?thesis
    unfolding e using l c dec big by (simp add: Let_def)
qed

lemma lead3:
  fixes x :: byte
  assumes "unat x < 16"
  shows "0xE0 \<le> (0xE0 OR x) \<and> (0xE0 OR x) < 0xF0 \<and> \<not> (0xE0 OR x) < 0x80
         \<and> \<not> (0xE0 OR x) < 0xE0"
    and "(0xE0 OR x) AND 0x0F = x"
proof -
  have b: "bit x n \<Longrightarrow> n < 4" for n using bits_below [of x 4 n] assms by simp
  have d: "0xE0 AND x = 0"
    by (rule bit_word_eqI) (auto simp: bit_simps numbits numbits_int dest: b)
  have "unat (0xE0 OR x) = 224 + unat x"
    using or_add [OF d] assms by simp
  then show "0xE0 \<le> (0xE0 OR x) \<and> (0xE0 OR x) < 0xF0 \<and> \<not> (0xE0 OR x) < 0x80
         \<and> \<not> (0xE0 OR x) < 0xE0"
    using assms by (simp add: word_le_nat_alt word_less_nat_alt)
  show "(0xE0 OR x) AND 0x0F = x"
    by (rule bit_word_eqI) (auto simp: bit_simps numbits numbits_int dest: b)
qed

lemma lead4:
  fixes x :: byte
  assumes "unat x < 8"
  shows "0xF0 \<le> (0xF0 OR x) \<and> (0xF0 OR x) < 0xF8 \<and> \<not> (0xF0 OR x) < 0x80
         \<and> \<not> (0xF0 OR x) < 0xE0 \<and> \<not> (0xF0 OR x) < 0xF0"
    and "(0xF0 OR x) AND 0x07 = x"
proof -
  have b: "bit x n \<Longrightarrow> n < 3" for n using bits_below [of x 3 n] assms by simp
  have d: "0xF0 AND x = 0"
    by (rule bit_word_eqI) (auto simp: bit_simps numbits numbits_int dest: b)
  have "unat (0xF0 OR x) = 240 + unat x"
    using or_add [OF d] assms by simp
  then show "0xF0 \<le> (0xF0 OR x) \<and> (0xF0 OR x) < 0xF8 \<and> \<not> (0xF0 OR x) < 0x80
         \<and> \<not> (0xF0 OR x) < 0xE0 \<and> \<not> (0xF0 OR x) < 0xF0"
    using assms by (simp add: word_le_nat_alt word_less_nat_alt)
  show "(0xF0 OR x) AND 0x07 = x"
    by (rule bit_word_eqI) (auto simp: bit_simps numbits numbits_int dest: b)
qed

lemma enc1:
  assumes "unat r \<le> 0x7F"
  shows "runes_of_string (encoderune r @ bs) = r # runes_of_string bs"
proof -
  have r7: "unat r < 2 ^ 7" using assms by simp
  have rb: "bit r n \<Longrightarrow> n < 7" for n using bits_below [OF r7] .
  have "unat (ucast r :: byte) < 2 ^ 7"
    by (rule small_word) (auto simp: bit_simps dest: rb)
  then have lt: "(ucast r :: byte) < 0x80" by (simp add: word_less_nat_alt)
  have rt: "ucast (ucast r :: byte) = r"
    by (rule bit_word_eqI) (auto simp: bit_simps dest: rb)
  have e: "encoderune r = [ucast r]"
    using assms by (simp add: encoderune_def)
  show ?thesis
    unfolding e using lt rt by simp
qed

lemma enc3:
  assumes "\<not> unat r \<le> 0x7FF" and "unat r \<le> 0xFFFF"
    and "\<not> (0xD800 \<le> unat r \<and> unat r \<le> 0xDFFF)"
  shows "runes_of_string (encoderune r @ bs) = r # runes_of_string bs"
proof -
  let ?x = "ucast (drop_bit 12 r) :: byte"
  let ?b0 = "0xE0 OR ?x"
  let ?b1 = "0x80 OR (ucast (drop_bit 6 r) AND 0x3F) :: byte"
  let ?b2 = "0x80 OR (ucast r AND 0x3F) :: byte"
  have r16: "unat r < 2 ^ 16" using assms(2) by simp
  have rb: "bit r n \<Longrightarrow> n < 16" for n using bits_below [OF r16] .
  have "unat ?x < 2 ^ 4"
    by (rule small_word) (auto simp: bit_simps dest: rb)
  then have x: "unat ?x < 16" by simp
  note l = lead3 [OF x]
  note c1 = cont_byte [of "ucast (drop_bit 6 r)"]
  note c2 = cont_byte [of "ucast r"]
  have dec: "push_bit 12 (ucast ?x) OR push_bit 6 (ucast (ucast (drop_bit 6 r) AND 0x3F :: byte))
             OR ucast (ucast r AND 0x3F :: byte) = r"
  proof (rule bit_word_eqI)
    fix n
    assume "n < LENGTH(32)"
    consider "n < 6" | "6 \<le> n" "n < 12" | "12 \<le> n"
      by linarith
    then show "bit (push_bit 12 (ucast ?x)
                 OR push_bit 6 (ucast (ucast (drop_bit 6 r) AND 0x3F :: byte))
                 OR ucast (ucast r AND 0x3F :: byte) :: rune) n = bit r n"
      by cases (auto simp: bit_simps numbits numbits_int dest: rb)
  qed
  have big: "(0x7FF :: rune) < r" "\<not> (0xD800 \<le> r \<and> r \<le> 0xDFFF)"
    using assms(1,3) by (simp_all add: word_less_nat_alt word_le_nat_alt)
  have e: "encoderune r = [?b0, ?b1, ?b2]"
    using assms by (auto simp: encoderune_def Let_def)
  show ?thesis
    unfolding e using l c1 c2 dec big by (simp add: Let_def)
qed

lemma enc4:
  assumes "\<not> unat r \<le> 0xFFFF" and "unat r \<le> 0x10FFFF"
  shows "runes_of_string (encoderune r @ bs) = r # runes_of_string bs"
proof -
  let ?x = "ucast (drop_bit 18 r) :: byte"
  let ?b0 = "0xF0 OR ?x"
  let ?b1 = "0x80 OR (ucast (drop_bit 12 r) AND 0x3F) :: byte"
  let ?b2 = "0x80 OR (ucast (drop_bit 6 r) AND 0x3F) :: byte"
  let ?b3 = "0x80 OR (ucast r AND 0x3F) :: byte"
  have r21: "unat r < 2 ^ 21" using assms(2) by simp
  have rb: "bit r n \<Longrightarrow> n < 21" for n using bits_below [OF r21] .
  have "unat ?x < 2 ^ 3"
    by (rule small_word) (auto simp: bit_simps dest: rb)
  then have x: "unat ?x < 8" by simp
  note l = lead4 [OF x]
  note c1 = cont_byte [of "ucast (drop_bit 12 r)"]
  note c2 = cont_byte [of "ucast (drop_bit 6 r)"]
  note c3 = cont_byte [of "ucast r"]
  have dec: "push_bit 18 (ucast ?x)
             OR push_bit 12 (ucast (ucast (drop_bit 12 r) AND 0x3F :: byte))
             OR push_bit 6 (ucast (ucast (drop_bit 6 r) AND 0x3F :: byte))
             OR ucast (ucast r AND 0x3F :: byte) = r"
  proof (rule bit_word_eqI)
    fix n
    assume "n < LENGTH(32)"
    consider "n < 6" | "6 \<le> n" "n < 12" | "12 \<le> n" "n < 18" | "18 \<le> n"
      by linarith
    then show "bit (push_bit 18 (ucast ?x)
                 OR push_bit 12 (ucast (ucast (drop_bit 12 r) AND 0x3F :: byte))
                 OR push_bit 6 (ucast (ucast (drop_bit 6 r) AND 0x3F :: byte))
                 OR ucast (ucast r AND 0x3F :: byte) :: rune) n = bit r n"
      by cases (auto simp: bit_simps numbits numbits_int dest: rb)
  qed
  have big: "(0xFFFF :: rune) < r" "r \<le> 0x10FFFF"
    using assms by (simp_all add: word_less_nat_alt word_le_nat_alt)
  have e: "encoderune r = [?b0, ?b1, ?b2, ?b3]"
    using assms by (auto simp: encoderune_def Let_def)
  show ?thesis
    unfolding e using l c1 c2 c3 dec big by (simp add: Let_def)
qed

lemma enc_invalid:
  assumes "unat r > 0x10FFFF \<or> (0xD800 \<le> unat r \<and> unat r \<le> 0xDFFF)"
  shows "runes_of_string (encoderune r @ bs) = runeError # runes_of_string bs"
proof -
  have e: "encoderune r = [0xEF, 0xBF, 0xBD]"
    using assms by (auto simp: encoderune_def)
  show ?thesis
    unfolding e by (simp add: contb_def runeError_def)
qed

lemma runes_of_encoderune:
  "runes_of_string (encoderune r @ bs) = validRune r # runes_of_string bs"
proof (cases "unat r > 0x10FFFF \<or> (0xD800 \<le> unat r \<and> unat r \<le> 0xDFFF)")
  case True
  then have "validRune r = runeError" by (auto simp: validRune_def)
  with enc_invalid [OF True] show ?thesis by simp
next
  case False
  then have v: "validRune r = r" by (auto simp: validRune_def)
  consider "unat r \<le> 0x7F" | "\<not> unat r \<le> 0x7F" "unat r \<le> 0x7FF"
    | "\<not> unat r \<le> 0x7FF" "unat r \<le> 0xFFFF" | "\<not> unat r \<le> 0xFFFF"
    by linarith
  then show ?thesis
  proof cases
    case 1
    from enc1 [OF 1] show ?thesis by (simp only: v)
  next
    case 2
    from enc2 [OF 2] show ?thesis by (simp only: v)
  next
    case 3
    from False have "\<not> (0xD800 \<le> unat r \<and> unat r \<le> 0xDFFF)" by simp
    from enc3 [OF 3 this] show ?thesis by (simp only: v)
  next
    case 4
    from False have "unat r \<le> 0x10FFFF" by simp
    from enc4 [OF 4 this] show ?thesis by (simp only: v)
  qed
qed

lemma runes_of_string_of_runes:
  "runes_of_string (string_of_runes rs) = map validRune rs"
proof (induction rs)
  case Nil
  then show ?case by (simp add: string_of_runes_def)
next
  case (Cons r rs)
  have "string_of_runes (r # rs) = encoderune r @ string_of_runes rs"
    by (simp add: string_of_runes_def)
  then show ?case using Cons.IH by (simp only: runes_of_encoderune list.map)
qed

section \<open>Properties of the key stack\<close>

lemma PopN_macro:
  "buf k = [] \<Longrightarrow> macroKeys k = xs @ ys \<Longrightarrow>
   map fst (fst (PopN (length xs) k)) = map ucast xs \<and>
   list_all (\<lambda>r. \<not> snd r) (fst (PopN (length xs) k)) \<and>
   macroKeys (snd (PopN (length xs) k)) = ys \<and> buf (snd (PopN (length xs) k)) = []"
proof (induction xs arbitrary: k)
  case Nil
  then show ?case by simp
next
  case (Cons x xs)
  obtain k1 where p: "Pop k = ((ucast x, False), k1)" and b1: "buf k1 = []"
    and m1: "macroKeys k1 = xs @ ys"
    using Cons.prems by (simp add: Pop_def)
  from Cons.IH [OF b1 m1] show ?case
    by (auto simp: p split: prod.splits)
qed

lemma PopN_buf:
  "buf k = xs @ ys \<Longrightarrow>
   fst (PopN (length xs) k) = map (\<lambda>b. (b, False)) xs \<and> buf (snd (PopN (length xs) k)) = ys"
proof (induction xs arbitrary: k)
  case Nil
  then show ?case by simp
next
  case (Cons x xs)
  obtain k1 where p: "Pop k = ((x, False), k1)" and b1: "buf k1 = xs @ ys"
    using Cons.prems by (simp add: Pop_def)
  from Cons.IH [OF b1] show ?case
    by (auto simp: p split: prod.splits)
qed

lemma waitLoop_reads:
  "waitLoop cr kr k dev sent = Some (k', dev', sent') \<Longrightarrow> length dev' < length dev"
proof (induction dev arbitrary: cr kr sent)
  case Nil
  then show ?case by simp
next
  case (Cons rd dev)
  then show ?case
    by (fastforce split: option.splits prod.splits if_splits)
qed

text \<open>
  C9. \<^verbatim>\<open>Feed\<close> with no keys and \<^verbatim>\<open>MatchedPrefix\<close> with no bytes return at once: the whole
  state (\<open>buf\<close>, \<open>macroKeys\<close>, \<open>matched\<close>, \<open>matchedLen\<close>, \<open>mustWait\<close> and the rest) is the
  state they were given.
\<close>

theorem Feed_MatchedPrefix_empty_noop:
  "Feed begin_flag [] k = k \<and> MatchedPrefix k [] = k"
  by (simp add: Feed_def MatchedPrefix_def)

text \<open>
  C3, as the code has it. \<^verbatim>\<open>MatchedPrefix(b)\<close> puts \<open>b\<close> back in front of \<open>buf\<close> and
  \<^verbatim>\<open>FlushUsed\<close> leaves \<open>buf\<close> alone, so after the two calls \<open>buf\<close> is \<open>b\<close> followed by the
  bytes it held before the call of \<^verbatim>\<open>MatchedPrefix\<close>, none lost and none twice. When \<open>b\<close>
  are the bytes that \<open>length b\<close> calls of \<^verbatim>\<open>Pop\<close> took from \<open>buf\<close>, this is \<open>buf\<close> as it was
  before those calls.
\<close>

theorem MatchedPrefix_FlushUsed_buf:
  "buf (FlushUsed (MatchedPrefix k b)) = b @ buf k \<and>
   buf (FlushUsed (MatchedPrefix (snd (PopN (length b) (k\<lparr>buf := b @ rest\<rparr>))) b)) = b @ rest"
proof -
  have "buf (FlushUsed (MatchedPrefix k' b)) = b @ buf k'" for k'
    by (simp add: FlushUsed_def MatchedPrefix_def Let_def)
  moreover have "buf (snd (PopN (length b) (k\<lparr>buf := b @ rest\<rparr>))) = rest"
    using PopN_buf [of "k\<lparr>buf := b @ rest\<rparr>" b rest] by simp
  ultimately show ?thesis by simp
qed

text \<open>
  C3, as the claim states it, fails: with \<open>buf\<close> empty, \<^verbatim>\<open>MatchedPrefix\<close> of the one byte
  \<^verbatim>\<open>a\<close> and then \<^verbatim>\<open>FlushUsed\<close> leave that byte in \<open>buf\<close>, which is not \<open>buf\<close> as it was
  before the call.
\<close>

theorem MatchedPrefix_FlushUsed_buf_counterexample:
  "buf (FlushUsed (MatchedPrefix
      \<lparr>buf = [], matched = [], matchedLen = 0, macroKeys = [], mustWait = False,
       waiting = False, reading = False\<rparr> [0x61]))
   \<noteq> buf \<lparr>buf = [], matched = [], matchedLen = 0, macroKeys = [], mustWait = False,
       waiting = False, reading = False\<rparr>"
  by (simp add: FlushUsed_def MatchedPrefix_def Let_def)

text \<open>
  C4. \<^verbatim>\<open>WaitAvailableKeys\<close> returns with the device untouched exactly when \<open>buf\<close> is not
  empty and \<open>mustWait\<close> is not set, or \<open>macroKeys\<close> is not empty; it then returns at once and
  leaves the state as it is. \<^verbatim>\<open>MatchedPrefix\<close> of a prefix that is not empty sets \<open>mustWait\<close>
  exactly when \<open>buf\<close> was empty. After it has pushed a prefix onto an empty \<open>buf\<close>, with no
  macro keys, \<^verbatim>\<open>WaitAvailableKeys\<close> reads the device: it waits for ever on a device with
  nothing to read, and when it returns it has taken at least one read. All this holds
  whoever receives on the channels.
\<close>

theorem WaitAvailableKeys_immediate:
  "((\<exists>k' sent. WaitAvailableKeys cr kr k dev = Some (k', dev, sent))
      = (buf k \<noteq> [] \<and> \<not> mustWait k \<or> macroKeys k \<noteq> [])) \<and>
   (buf k \<noteq> [] \<and> \<not> mustWait k \<or> macroKeys k \<noteq> [] \<longrightarrow>
      WaitAvailableKeys cr kr k dev = Some (k, dev, [])) \<and>
   (p \<noteq> [] \<longrightarrow>
      mustWait (MatchedPrefix k p) = (buf k = []) \<and> buf (MatchedPrefix k p) = p @ buf k) \<and>
   (p \<noteq> [] \<longrightarrow> buf k = [] \<longrightarrow> macroKeys k = [] \<longrightarrow>
      WaitAvailableKeys cr kr (MatchedPrefix k p) [] = None \<and>
      (\<forall>k' dev' sent. WaitAvailableKeys cr kr (MatchedPrefix k p) dev = Some (k', dev', sent) \<longrightarrow>
         length dev' < length dev))"
proof -
  have reads: "length dev' < length dev"
    if "\<not> (buf j \<noteq> [] \<and> \<not> mustWait j \<or> macroKeys j \<noteq> [])"
      and "WaitAvailableKeys cr kr j dev = Some (k', dev', sent)" for j k' dev' sent
  proof -
    from that obtain k'' where "waitLoop cr kr (j\<lparr>waiting := True\<rparr>) dev [] = Some (k'', dev', sent)"
      by (auto simp: WaitAvailableKeys_def split: option.splits if_splits)
    then show ?thesis by (rule waitLoop_reads)
  qed
  have a: "(\<exists>k' sent. WaitAvailableKeys cr kr k dev = Some (k', dev, sent))
      = (buf k \<noteq> [] \<and> \<not> mustWait k \<or> macroKeys k \<noteq> [])"
  proof (cases "buf k \<noteq> [] \<and> \<not> mustWait k \<or> macroKeys k \<noteq> []")
    case True
    then have "WaitAvailableKeys cr kr k dev = Some (k, dev, [])"
      by (auto simp: WaitAvailableKeys_def)
    with True show ?thesis by simp
  next
    case False
    then have "WaitAvailableKeys cr kr k dev \<noteq> Some (k', dev, sent)" for k' sent
      using reads [of k k' dev sent] by auto
    with False show ?thesis by simp
  qed
  have b: "buf k \<noteq> [] \<and> \<not> mustWait k \<or> macroKeys k \<noteq> [] \<longrightarrow>
      WaitAvailableKeys cr kr k dev = Some (k, dev, [])"
    by (auto simp: WaitAvailableKeys_def)
  have c: "p \<noteq> [] \<longrightarrow>
      mustWait (MatchedPrefix k p) = (buf k = []) \<and> buf (MatchedPrefix k p) = p @ buf k"
    by (simp add: MatchedPrefix_def)
  have d: "p \<noteq> [] \<longrightarrow> buf k = [] \<longrightarrow> macroKeys k = [] \<longrightarrow>
      WaitAvailableKeys cr kr (MatchedPrefix k p) [] = None \<and>
      (\<forall>k' dev' sent. WaitAvailableKeys cr kr (MatchedPrefix k p) dev = Some (k', dev', sent) \<longrightarrow>
         length dev' < length dev)"
  proof (intro impI conjI allI)
    assume h: "p \<noteq> []" "buf k = []" "macroKeys k = []"
    then have n: "\<not> (buf (MatchedPrefix k p) \<noteq> [] \<and> \<not> mustWait (MatchedPrefix k p)
        \<or> macroKeys (MatchedPrefix k p) \<noteq> [])"
      by (simp add: MatchedPrefix_def)
    then show "WaitAvailableKeys cr kr (MatchedPrefix k p) [] = None"
      by (auto simp: WaitAvailableKeys_def)
    fix k' dev' sent
    assume "WaitAvailableKeys cr kr (MatchedPrefix k p) dev = Some (k', dev', sent)"
    with n show "length dev' < length dev" by (rule reads)
  qed
  from a b c d show ?thesis by blast
qed

theorem WaitAvailableKeys_immediate_witness:
  "WaitAvailableKeys 0 0 (emptyKeys\<lparr>macroKeys := [0x61]\<rparr>) []
     = Some (emptyKeys\<lparr>macroKeys := [0x61]\<rparr>, [], []) \<and>
   mustWait (MatchedPrefix emptyKeys [0x1B]) \<and>
   WaitAvailableKeys 0 0 (MatchedPrefix emptyKeys [0x1B]) [] = None"
  using WaitAvailableKeys_immediate [where cr = 0 and kr = 0
      and k = "emptyKeys\<lparr>macroKeys := [0x61]\<rparr>" and dev = "[]" and p = "[0x1B]"]
    WaitAvailableKeys_immediate [where cr = 0 and kr = 0 and k = emptyKeys and dev = "[]"
      and p = "[0x1B]"]
  by (simp add: emptyKeys_def)

text \<open>
  C1. When \<open>buf\<close> is not empty, \<^verbatim>\<open>Pop\<close>, \<^verbatim>\<open>PopKey\<close> and \<^verbatim>\<open>PeekKey\<close> give its first byte,
  whatever the macro keys are. When \<open>buf\<close> is empty and \<open>macroKeys\<close> is not, they give the
  first macro key (as a byte). When both are empty they give the zero key and \<open>empty\<close> set.
  \<^verbatim>\<open>Feed(true, keys...)\<close> puts the keys in front of \<open>macroKeys\<close> (a key that is no Unicode
  scalar value as U+FFFD, which is what \<^verbatim>\<open>[]rune(string(keys))\<close> makes of it), and with
  \<open>buf\<close> empty the next calls of \<^verbatim>\<open>Pop\<close> give exactly those keys, in order, before any
  macro key queued earlier.
\<close>

theorem Pop_Peek_Feed_order:
  "fst (Pop (k\<lparr>buf := b # bs\<rparr>)) = (b, False) \<and>
   fst (PopKey (k\<lparr>buf := b # bs\<rparr>)) = (b, False) \<and>
   PeekKey (k\<lparr>buf := b # bs\<rparr>) = (b, False) \<and>
   fst (Pop (k\<lparr>buf := [], macroKeys := m # ms\<rparr>)) = (ucast m, False) \<and>
   fst (PopKey (k\<lparr>buf := [], macroKeys := m # ms\<rparr>)) = (ucast m, False) \<and>
   PeekKey (k\<lparr>buf := [], macroKeys := m # ms\<rparr>) = (ucast m, False) \<and>
   fst (Pop (k\<lparr>buf := [], macroKeys := []\<rparr>)) = (0, True) \<and>
   fst (PopKey (k\<lparr>buf := [], macroKeys := []\<rparr>)) = (0, True) \<and>
   PeekKey (k\<lparr>buf := [], macroKeys := []\<rparr>) = (0, True) \<and>
   macroKeys (Feed True ks k) = map validRune ks @ macroKeys k \<and>
   map fst (fst (PopN (length ks) (Feed True ks (k\<lparr>buf := []\<rparr>))))
     = map (\<lambda>r. ucast (validRune r)) ks \<and>
   (list_all (\<lambda>r. validRune r = r) ks \<longrightarrow>
      macroKeys (Feed True ks k) = ks @ macroKeys k \<and>
      map fst (fst (PopN (length ks) (Feed True ks (k\<lparr>buf := []\<rparr>)))) = map ucast ks)"
proof -
  have f: "macroKeys (Feed True ks j) = map validRune ks @ macroKeys j"
    and g: "buf (Feed True ks j) = buf j" for j
    by (simp_all add: Feed_def Let_def runes_of_string_of_runes)
  have p: "map fst (fst (PopN (length ks) (Feed True ks (k\<lparr>buf := []\<rparr>))))
     = map (\<lambda>r. ucast (validRune r)) ks"
    using PopN_macro [of "Feed True ks (k\<lparr>buf := []\<rparr>)" "map validRune ks" "macroKeys k"]
    by (simp add: f g comp_def)
  have v: "map validRune ks = ks" if "list_all (\<lambda>r. validRune r = r) ks"
    using that by (induction ks) simp_all
  have "list_all (\<lambda>r. validRune r = r) ks \<longrightarrow>
      macroKeys (Feed True ks k) = ks @ macroKeys k \<and>
      map fst (fst (PopN (length ks) (Feed True ks (k\<lparr>buf := []\<rparr>)))) = map ucast ks"
  proof
    assume a: "list_all (\<lambda>r. validRune r = r) ks"
    have "map (\<lambda>r. ucast (validRune r) :: byte) ks = map ucast (map validRune ks)"
      by (simp add: comp_def)
    with v [OF a] f p show "macroKeys (Feed True ks k) = ks @ macroKeys k \<and>
      map fst (fst (PopN (length ks) (Feed True ks (k\<lparr>buf := []\<rparr>)))) = map ucast ks"
      by simp
  qed
  with f p show ?thesis
    by (simp add: Pop_def PopKey_def PeekKey_def)
qed

theorem Pop_Peek_Feed_order_witness:
  "macroKeys (Feed True [0x61, 0x62] (emptyKeys\<lparr>macroKeys := [0x7A]\<rparr>)) = [0x61, 0x62, 0x7A] \<and>
   map fst (fst (PopN (length [0x61, 0x62 :: rune])
                   (Feed True [0x61, 0x62] (emptyKeys\<lparr>macroKeys := [0x7A], buf := []\<rparr>))))
     = [0x61, 0x62]"
  using Pop_Peek_Feed_order [where ks = "[0x61, 0x62]" and k = "emptyKeys\<lparr>macroKeys := [0x7A]\<rparr>"
      and b = 0 and bs = "[]" and m = 0 and ms = "[]"]
  by (simp add: validRune_def emptyKeys_def)

section \<open>Properties of the cursor query\<close>

lemma cursorLoop_direct_Nil:
  "\<not> waiting k \<Longrightarrow> \<not> reading k \<Longrightarrow> cursorLoop k [] ch = None"
  by (simp add: cursorLoop.simps [of k "[]" ch])

lemma cursorLoop_direct_Cons:
  "\<not> waiting k \<Longrightarrow> \<not> reading k \<Longrightarrow>
   cursorLoop k ((cursor, err) # dev') ch =
     (if err \<noteq> None then Some (None, k, dev', ch)
      else if cursor = [] then Some (None, k, dev', ch)
      else (case findCursor cursor of
              None \<Rightarrow> cursorLoop (k\<lparr>buf := buf k @ cursor\<rparr>) dev' ch
            | Some (pre, g1, g2, post) \<Rightarrow> Some (Some (g1, g2), k, dev', ch)))"
  by (simp add: cursorLoop.simps [of k "(cursor, err) # dev'" ch] split: option.splits)

lemma cursorLoop_chan_Nil:
  "waiting k \<or> reading k \<Longrightarrow> cursorLoop k dev [] = None"
  by (simp add: cursorLoop.simps [of k dev "[]"])

lemma cursorLoop_chan_Cons:
  "waiting k \<or> reading k \<Longrightarrow>
   cursorLoop k dev (cursor # ch') =
     (if cursor = [] then Some (None, k, dev, ch')
      else (case findCursor cursor of
              None \<Rightarrow> cursorLoop (k\<lparr>buf := buf k @ cursor\<rparr>) dev ch'
            | Some (pre, g1, g2, post) \<Rightarrow> Some (Some (g1, g2), k, dev, ch')))"
  by (simp add: cursorLoop.simps [of k dev "cursor # ch'"] split: option.splits)


lemma foldl_digits_nonneg:
  "list_all isDigit ds \<Longrightarrow> 0 \<le> a \<Longrightarrow> 0 \<le> foldl (\<lambda>a d. 10 * a + (uint d - 48)) a ds"
proof (induction ds arbitrary: a)
  case Nil
  then show ?case by simp
next
  case (Cons d ds)
  have "48 \<le> uint d"
    using Cons.prems(1) by (simp add: isDigit_def word_le_def)
  then have "0 \<le> 10 * a + (uint d - 48)"
    using Cons.prems(2) by simp
  then show ?case
    using Cons.IH Cons.prems(1) by simp
qed

lemma Atoi_nonneg: "Atoi ds = Some n \<Longrightarrow> 0 \<le> n"
  using foldl_digits_nonneg [of ds 0]
  by (auto simp: Atoi_def Let_def split: if_splits)

lemma cursorLoop_direct_run:
  "\<not> waiting k \<Longrightarrow> \<not> reading k \<Longrightarrow> list_all ordinaryInput pre \<Longrightarrow> \<not> ordinaryInput rd \<Longrightarrow>
   cursorLoop k (pre @ rd # dev') ch =
     Some (cursorMatch rd, k\<lparr>buf := buf k @ concat (map fst pre)\<rparr>, dev', ch)"
proof (induction pre arbitrary: k)
  case Nil
  obtain c err where rd: "rd = (c, err)" by (cases rd)
  show ?case
    using Nil by (auto simp: rd cursorLoop_direct_Cons ordinaryInput_def cursorMatch_def
        split: option.splits)
next
  case (Cons p pre)
  obtain c err where p: "p = (c, err)" by (cases p)
  have o: "err = None" "c \<noteq> []" "findCursor c = None"
    using Cons.prems(3) by (simp_all add: p ordinaryInput_def)
  have "cursorLoop k ((p # pre) @ rd # dev') ch
        = cursorLoop (k\<lparr>buf := buf k @ c\<rparr>) (pre @ rd # dev') ch"
    using Cons.prems(1,2) o by (simp add: p cursorLoop_direct_Cons)
  also have "\<dots> = Some (cursorMatch rd,
      (k\<lparr>buf := buf k @ c\<rparr>)\<lparr>buf := buf (k\<lparr>buf := buf k @ c\<rparr>) @ concat (map fst pre)\<rparr>, dev', ch)"
    using Cons.prems by (intro Cons.IH) simp_all
  finally show ?case by (simp add: p)
qed

lemma cursorLoop_direct_decomp:
  "\<not> waiting k \<Longrightarrow> \<not> reading k \<Longrightarrow> cursorLoop k dev ch = Some (m, k', dev', ch') \<Longrightarrow>
   \<exists>pre rd. dev = pre @ rd # dev' \<and> list_all ordinaryInput pre \<and> \<not> ordinaryInput rd"
proof (induction dev arbitrary: k)
  case Nil
  then show ?case by (simp add: cursorLoop_direct_Nil)
next
  case (Cons p dev)
  obtain c err where p: "p = (c, err)" by (cases p)
  show ?case
  proof (cases "ordinaryInput p")
    case True
    then have o: "err = None" "c \<noteq> []" "findCursor c = None"
      by (simp_all add: p ordinaryInput_def)
    have "cursorLoop (k\<lparr>buf := buf k @ c\<rparr>) dev ch = Some (m, k', dev', ch')"
      using Cons.prems o by (simp add: p cursorLoop_direct_Cons)
    then obtain pre rd where "dev = pre @ rd # dev'" "list_all ordinaryInput pre" "\<not> ordinaryInput rd"
      using Cons.IH [of "k\<lparr>buf := buf k @ c\<rparr>"] Cons.prems(1,2) by auto
    then have "p # dev = (p # pre) @ rd # dev' \<and> list_all ordinaryInput (p # pre) \<and> \<not> ordinaryInput rd"
      using True by simp
    then show ?thesis by blast
  next
    case False
    then have "dev' = dev"
      using Cons.prems by (auto simp: p cursorLoop_direct_Cons ordinaryInput_def split: if_splits option.splits)
    then have "p # dev = [] @ p # dev' \<and> list_all ordinaryInput [] \<and> \<not> ordinaryInput p"
      using False by simp
    then show ?thesis by blast
  qed
qed

lemma cursorLoop_chan_run:
  "waiting k \<or> reading k \<Longrightarrow> list_all (\<lambda>c. ordinaryInput (c, None)) pre \<Longrightarrow>
   \<not> ordinaryInput (c, None) \<Longrightarrow>
   cursorLoop k dev (pre @ c # ch') =
     Some (cursorMatch (c, None), k\<lparr>buf := buf k @ concat pre\<rparr>, dev, ch')"
proof (induction pre arbitrary: k)
  case Nil
  then show ?case
    by (auto simp: cursorLoop_chan_Cons ordinaryInput_def cursorMatch_def split: option.splits)
next
  case (Cons p pre)
  have o: "p \<noteq> []" "findCursor p = None"
    using Cons.prems(2) by (simp_all add: ordinaryInput_def)
  have w: "waiting (k\<lparr>buf := buf k @ p\<rparr>) \<or> reading (k\<lparr>buf := buf k @ p\<rparr>)"
    using Cons.prems(1) by simp
  have "cursorLoop k dev ((p # pre) @ c # ch')
        = cursorLoop (k\<lparr>buf := buf k @ p\<rparr>) dev (pre @ c # ch')"
    using Cons.prems(1) o by (simp add: cursorLoop_chan_Cons)
  also have "\<dots> = Some (cursorMatch (c, None),
      (k\<lparr>buf := buf k @ p\<rparr>)\<lparr>buf := buf (k\<lparr>buf := buf k @ p\<rparr>) @ concat pre\<rparr>, dev, ch')"
    using Cons.prems(2,3) by (intro Cons.IH [OF w]) simp_all
  finally show ?case by simp
qed

lemma cursorLoop_chan_decomp:
  "waiting k \<or> reading k \<Longrightarrow> cursorLoop k dev ch = Some (m, k', dev', ch') \<Longrightarrow>
   \<exists>pre c. ch = pre @ c # ch' \<and> list_all (\<lambda>c. ordinaryInput (c, None)) pre \<and>
           \<not> ordinaryInput (c, None)"
proof (induction ch arbitrary: k)
  case Nil
  then show ?case by (simp add: cursorLoop_chan_Nil)
next
  case (Cons p ch)
  show ?case
  proof (cases "ordinaryInput (p, None)")
    case True
    then have o: "p \<noteq> []" "findCursor p = None"
      by (simp_all add: ordinaryInput_def)
    have w: "waiting (k\<lparr>buf := buf k @ p\<rparr>) \<or> reading (k\<lparr>buf := buf k @ p\<rparr>)"
      using Cons.prems(1) by simp
    have "cursorLoop (k\<lparr>buf := buf k @ p\<rparr>) dev ch = Some (m, k', dev', ch')"
      using Cons.prems o by (simp add: cursorLoop_chan_Cons)
    from Cons.IH [OF w this] obtain pre c where
      "ch = pre @ c # ch'" "list_all (\<lambda>c. ordinaryInput (c, None)) pre" "\<not> ordinaryInput (c, None)"
      by blast
    then have "p # ch = (p # pre) @ c # ch' \<and> list_all (\<lambda>c. ordinaryInput (c, None)) (p # pre)
        \<and> \<not> ordinaryInput (c, None)"
      using True by simp
    then show ?thesis by blast
  next
    case False
    then have "ch' = ch"
      using Cons.prems
      by (auto simp: cursorLoop_chan_Cons ordinaryInput_def split: if_splits option.splits)
    then have "p # ch = [] @ p # ch' \<and> list_all (\<lambda>c. ordinaryInput (c, None)) []
        \<and> \<not> ordinaryInput (p, None)"
      using False by simp
    then show ?thesis by blast
  qed
qed

lemma GetCursorPos_of_loop:
  "cursorLoop k dev ch = Some (cursorMatch rd, k', dev', ch') \<Longrightarrow> \<not> ordinaryInput rd \<Longrightarrow>
   \<exists>xy out. GetCursorPos k dev ch = Some (xy, k', dev', ch', out) \<and> ((xy = (-1, -1)) = degraded rd)
      \<and> (out = [Stdout queryCursor, Stderr disableMsg]) = degraded rd"
  by (cases rd) (auto simp: GetCursorPos_def cursorMatch_def degraded_def ordinaryInput_def
      split: option.splits if_splits dest: Atoi_nonneg)


text \<open>
  C2. With neither \<open>waiting\<close> nor \<open>reading\<close> set, \<^verbatim>\<open>GetCursorPos\<close> reads the device itself.
  On the read \<^verbatim>\<open>"\x1b[24;10R"\<close> it returns \<open>(10, 24)\<close>. On the read
  \<^verbatim>\<open>"ab\x1b[24;10Rcd"\<close> it returns \<open>(10, 24)\<close> too, but the bytes \<^verbatim>\<open>ab\<close> and \<^verbatim>\<open>cd\<close> around
  the response are not appended to \<open>buf\<close>: \<open>buf\<close> is still empty and the next \<^verbatim>\<open>Pop\<close> finds
  nothing. The other reader, \<^verbatim>\<open>extractCursorPos\<close>, does keep them: of the same bytes it gives
  the response and \<^verbatim>\<open>abcd\<close>.
\<close>

theorem GetCursorPos_literals:
  "GetCursorPos emptyKeys [([0x1B, 0x5B, 0x32, 0x34, 0x3B, 0x31, 0x30, 0x52], None)] []
     = Some ((10, 24), emptyKeys, [], [], [Stdout queryCursor]) \<and>
   GetCursorPos emptyKeys
       [([0x61, 0x62, 0x1B, 0x5B, 0x32, 0x34, 0x3B, 0x31, 0x30, 0x52, 0x63, 0x64], None)] []
     = Some ((10, 24), emptyKeys, [], [], [Stdout queryCursor]) \<and>
   Pop emptyKeys = ((0, True), emptyKeys) \<and>
   extractCursorPos [0x61, 0x62, 0x1B, 0x5B, 0x32, 0x34, 0x3B, 0x31, 0x30, 0x52, 0x63, 0x64]
     = ([0x1B, 0x5B, 0x32, 0x34, 0x3B, 0x31, 0x30, 0x52], [0x61, 0x62, 0x63, 0x64])"
proof -
  have w: "\<not> waiting emptyKeys" "\<not> reading emptyKeys"
    by (simp_all add: emptyKeys_def)
  have "GetCursorPos emptyKeys [([0x1B, 0x5B, 0x32, 0x34, 0x3B, 0x31, 0x30, 0x52], None)] []
     = Some ((10, 24), emptyKeys, [], [], [Stdout queryCursor])"
    by (simp add: GetCursorPos_def cursorLoop_direct_Cons w matchCursorAt_def isDigit_def
        Atoi_def)
  moreover have "GetCursorPos emptyKeys
       [([0x61, 0x62, 0x1B, 0x5B, 0x32, 0x34, 0x3B, 0x31, 0x30, 0x52, 0x63, 0x64], None)] []
     = Some ((10, 24), emptyKeys, [], [], [Stdout queryCursor])"
    by (simp add: GetCursorPos_def cursorLoop_direct_Cons w matchCursorAt_def isDigit_def
        Atoi_def)
  moreover have "Pop emptyKeys = ((0, True), emptyKeys)"
    by (simp add: Pop_def emptyKeys_def)
  moreover have
    "extractCursorPos [0x61, 0x62, 0x1B, 0x5B, 0x32, 0x34, 0x3B, 0x31, 0x30, 0x52, 0x63, 0x64]
     = ([0x1B, 0x5B, 0x32, 0x34, 0x3B, 0x31, 0x30, 0x52], [0x61, 0x62, 0x63, 0x64])"
    by (simp add: extractCursorPos_def matchCursorAt_def isDigit_def)
  ultimately show ?thesis by blast
qed

text \<open>
  C7, as the code has it. \<^verbatim>\<open>GetCursorPos\<close> takes its input from the device or, while
  \<open>waiting\<close> or \<open>reading\<close> is set, from the cursor channel. On either path it passes over
  the reads (the messages) that are ordinary input, appending them to \<open>buf\<close>, and stops at
  the first that is not: it returns there, with what comes after it untouched (nothing is
  read again after a failure), and its result is \<open>(-1, -1)\<close> exactly when that read is
  degraded: a read with an error, an empty read or message, or a cursor response whose row
  or column does not fit an \<^verbatim>\<open>int\<close>. Every call that returns has stopped at such a read.
\<close>

theorem GetCursorPos_degraded_iff:
  "(\<not> waiting k \<longrightarrow> \<not> reading k \<longrightarrow>
      (list_all ordinaryInput pre \<longrightarrow> \<not> ordinaryInput rd \<longrightarrow>
         (\<exists>xy out. GetCursorPos k (pre @ rd # rest) ch
                      = Some (xy, k\<lparr>buf := buf k @ concat (map fst pre)\<rparr>, rest, ch, out)
                    \<and> ((xy = (-1, -1)) = degraded rd))) \<and>
      (\<forall>xy k' dev' ch' out.
         GetCursorPos k dev ch = Some (xy, k', dev', ch', out) \<longrightarrow>
         (\<exists>pre' rd'. dev = pre' @ rd' # dev' \<and> list_all ordinaryInput pre' \<and>
                      \<not> ordinaryInput rd' \<and> ch' = ch \<and>
                      k' = k\<lparr>buf := buf k @ concat (map fst pre')\<rparr> \<and>
                      ((xy = (-1, -1)) = degraded rd')))) \<and>
   (waiting k \<or> reading k \<longrightarrow>
      (list_all (\<lambda>c. ordinaryInput (c, None)) cpre \<longrightarrow> \<not> ordinaryInput (c, None) \<longrightarrow>
         (\<exists>xy out. GetCursorPos k dev (cpre @ c # crest)
                      = Some (xy, k\<lparr>buf := buf k @ concat cpre\<rparr>, dev, crest, out)
                    \<and> ((xy = (-1, -1)) = degraded (c, None)))) \<and>
      (\<forall>xy k' dev' ch' out.
         GetCursorPos k dev ch = Some (xy, k', dev', ch', out) \<longrightarrow>
         (\<exists>cpre' c'. ch = cpre' @ c' # ch' \<and> list_all (\<lambda>c. ordinaryInput (c, None)) cpre' \<and>
                      \<not> ordinaryInput (c', None) \<and> dev' = dev \<and>
                      k' = k\<lparr>buf := buf k @ concat cpre'\<rparr> \<and>
                      ((xy = (-1, -1)) = degraded (c', None)))))"
proof (intro conjI impI allI)
  assume w: "\<not> waiting k" "\<not> reading k"
  assume "list_all ordinaryInput pre" and "\<not> ordinaryInput rd"
  then show "\<exists>xy out. GetCursorPos k (pre @ rd # rest) ch
                       = Some (xy, k\<lparr>buf := buf k @ concat (map fst pre)\<rparr>, rest, ch, out)
                     \<and> ((xy = (-1, -1)) = degraded rd)"
    using GetCursorPos_of_loop [OF cursorLoop_direct_run [OF w], of pre rd rest ch]
    by blast
next
  fix xy k' dev' ch' out
  assume w: "\<not> waiting k" "\<not> reading k"
  assume g: "GetCursorPos k dev ch = Some (xy, k', dev', ch', out)"
  then obtain m where l: "cursorLoop k dev ch = Some (m, k', dev', ch')"
    by (auto simp: GetCursorPos_def split: option.splits)
  from cursorLoop_direct_decomp [OF w l]
  obtain pre' rd' where d: "dev = pre' @ rd' # dev'" "list_all ordinaryInput pre'"
      "\<not> ordinaryInput rd'"
    by blast
  have r: "cursorLoop k dev ch
        = Some (cursorMatch rd', k\<lparr>buf := buf k @ concat (map fst pre')\<rparr>, dev', ch)"
    unfolding d(1) using cursorLoop_direct_run [OF w d(2,3)] .
  with l have e: "ch' = ch" "k' = k\<lparr>buf := buf k @ concat (map fst pre')\<rparr>" by simp_all
  from GetCursorPos_of_loop [OF r d(3)] g have "(xy = (-1, -1)) = degraded rd'"
    by auto
  with d e show "\<exists>pre' rd'. dev = pre' @ rd' # dev' \<and> list_all ordinaryInput pre' \<and>
                      \<not> ordinaryInput rd' \<and> ch' = ch \<and>
                      k' = k\<lparr>buf := buf k @ concat (map fst pre')\<rparr> \<and>
                      ((xy = (-1, -1)) = degraded rd')"
    by blast
next
  assume w: "waiting k \<or> reading k"
  assume "list_all (\<lambda>c. ordinaryInput (c, None)) cpre" and "\<not> ordinaryInput (c, None)"
  then show "\<exists>xy out. GetCursorPos k dev (cpre @ c # crest)
                      = Some (xy, k\<lparr>buf := buf k @ concat cpre\<rparr>, dev, crest, out)
                    \<and> ((xy = (-1, -1)) = degraded (c, None))"
    using GetCursorPos_of_loop [OF cursorLoop_chan_run [OF w], of cpre c dev crest]
    by blast
next
  fix xy k' dev' ch' out
  assume w: "waiting k \<or> reading k"
  assume g: "GetCursorPos k dev ch = Some (xy, k', dev', ch', out)"
  then obtain m where l: "cursorLoop k dev ch = Some (m, k', dev', ch')"
    by (auto simp: GetCursorPos_def split: option.splits)
  from cursorLoop_chan_decomp [OF w l]
  obtain cpre' c' where d: "ch = cpre' @ c' # ch'"
      "list_all (\<lambda>c. ordinaryInput (c, None)) cpre'" "\<not> ordinaryInput (c', None)"
    by blast
  have r: "cursorLoop k dev ch
        = Some (cursorMatch (c', None), k\<lparr>buf := buf k @ concat cpre'\<rparr>, dev, ch')"
    unfolding d(1) using cursorLoop_chan_run [OF w d(2,3)] .
  with l have e: "dev' = dev" "k' = k\<lparr>buf := buf k @ concat cpre'\<rparr>" by simp_all
  from GetCursorPos_of_loop [OF r d(3)] g have "(xy = (-1, -1)) = degraded (c', None)"
    by auto
  with d e show "\<exists>cpre' c'. ch = cpre' @ c' # ch' \<and> list_all (\<lambda>c. ordinaryInput (c, None)) cpre' \<and>
                      \<not> ordinaryInput (c', None) \<and> dev' = dev \<and>
                      k' = k\<lparr>buf := buf k @ concat cpre'\<rparr> \<and>
                      ((xy = (-1, -1)) = degraded (c', None))"
    by blast
qed

theorem GetCursorPos_degraded_iff_witness:
  "(\<exists>out. GetCursorPos emptyKeys [([0x61, 0x62], None), ([], Some IoEOF), ([0x63], None)] []
           = Some ((-1, -1), emptyKeys\<lparr>buf := [0x61, 0x62]\<rparr>, [([0x63], None)], [], out)) \<and>
   (\<exists>out. GetCursorPos (emptyKeys\<lparr>waiting := True\<rparr>) [] [[0x61, 0x62], [], [0x63]]
           = Some ((-1, -1), emptyKeys\<lparr>waiting := True, buf := [0x61, 0x62]\<rparr>, [], [[0x63]], out))"
  using GetCursorPos_degraded_iff [where k = emptyKeys and pre = "[([0x61, 0x62], None)]"
      and rd = "([], Some IoEOF)" and rest = "[([0x63], None)]" and ch = "[]" and dev = "[]"
      and cpre = "[]" and c = "[]" and crest = "[]"]
    GetCursorPos_degraded_iff [where k = "emptyKeys\<lparr>waiting := True\<rparr>" and pre = "[]"
      and rd = "([], None)" and rest = "[]" and ch = "[]" and dev = "[]"
      and cpre = "[[0x61, 0x62]]" and c = "[]" and crest = "[[0x63]]"]
  by (simp add: emptyKeys_def ordinaryInput_def degraded_def matchCursorAt_def)

text \<open>
  C7, as the claim states it, fails: the read \<^verbatim>\<open>"\x1b[9223372036854775808;10R"\<close> has no
  error and is not empty, and \<^verbatim>\<open>GetCursorPos\<close> returns \<open>(-1, -1)\<close> on it, the row being
  \<open>2^63\<close>.
\<close>

theorem GetCursorPos_degraded_counterexample:
  "GetCursorPos emptyKeys
     [([0x1B, 0x5B, 0x39, 0x32, 0x32, 0x33, 0x33, 0x37, 0x32, 0x30, 0x33, 0x36, 0x38, 0x35,
        0x34, 0x37, 0x37, 0x35, 0x38, 0x30, 0x38, 0x3B, 0x31, 0x30, 0x52], None)] []
   = Some ((-1, -1), emptyKeys, [], [], [Stdout queryCursor, Stderr disableMsg])"
proof -
  have w: "\<not> waiting emptyKeys" "\<not> reading emptyKeys"
    by (simp_all add: emptyKeys_def)
  show ?thesis
    by (simp add: GetCursorPos_def cursorLoop_direct_Cons w matchCursorAt_def isDigit_def
        Atoi_def)
qed

section \<open>Properties of the multiline question\<close>

lemma turnOutput_tty [simp]: "turnOutput (rl\<lparr>tty := t\<rparr>) data = turnOutput rl data"
  by (rule ext) (simp add: turnOutput_def previewText_def split: prod.splits)

lemma allowLoop_stop:
  "\<not> otherAnswer rd \<Longrightarrow>
   allowLoop rl data (rd # rest)
     = Some (yesAnswer rd, rl\<lparr>tty := tty rl @ turnOutput rl data rd\<rparr>, rest)"
  by (cases rd)
    (auto simp: otherAnswer_def yesAnswer_def noAnswer_def turnOutput_def print_def Let_def)

lemma allowLoop_again:
  "otherAnswer rd \<Longrightarrow>
   allowLoop rl data (rd # rest)
     = allowLoop (rl\<lparr>tty := tty rl @ turnOutput rl data rd\<rparr>) data rest"
  by (cases rd)
    (auto simp: otherAnswer_def yesAnswer_def noAnswer_def turnOutput_def print_def Let_def
      previewText_def)

lemma allowLoop_run:
  "list_all otherAnswer pre \<Longrightarrow> \<not> otherAnswer rd \<Longrightarrow>
   allowLoop rl data (pre @ rd # rest)
     = Some (yesAnswer rd,
             rl\<lparr>tty := tty rl @ concat (map (turnOutput rl data) (pre @ [rd]))\<rparr>, rest)"
proof (induction pre arbitrary: rl)
  case Nil
  then show ?case by (simp add: allowLoop_stop)
next
  case (Cons p pre)
  then show ?case by (simp add: allowLoop_again)
qed

lemma allowLoop_never:
  "list_all otherAnswer dev \<Longrightarrow> allowLoop rl data dev = None"
proof (induction dev arbitrary: rl)
  case Nil
  then show ?case by simp
next
  case (Cons p dev)
  then show ?case by (simp add: allowLoop_again)
qed

lemma allowLoop_decomp:
  "allowLoop rl data dev = Some (ok, rl', dev') \<Longrightarrow>
   \<exists>pre rd. dev = pre @ rd # dev' \<and> list_all otherAnswer pre \<and> \<not> otherAnswer rd"
proof (induction dev arbitrary: rl)
  case Nil
  then show ?case by simp
next
  case (Cons p dev)
  show ?case
  proof (cases "otherAnswer p")
    case True
    with Cons.prems
    have "allowLoop (rl\<lparr>tty := tty rl @ turnOutput rl data p\<rparr>) data dev = Some (ok, rl', dev')"
      by (simp add: allowLoop_again)
    from Cons.IH [OF this] obtain pre rd where
      "dev = pre @ rd # dev'" "list_all otherAnswer pre" "\<not> otherAnswer rd" by blast
    with True have "p # dev = (p # pre) @ rd # dev' \<and> list_all otherAnswer (p # pre) \<and> \<not> otherAnswer rd"
      by simp
    then show ?thesis by blast
  next
    case False
    with Cons.prems have "dev' = dev" by (simp add: allowLoop_stop)
    with False have "p # dev = [] @ p # dev' \<and> list_all otherAnswer [] \<and> \<not> otherAnswer p"
      by simp
    then show ?thesis by blast
  qed
qed

lemma allowMultiline_run:
  "list_all otherAnswer pre \<Longrightarrow> \<not> otherAnswer rd \<Longrightarrow>
   allowMultiline h rl data (pre @ rd # rest)
     = Some (yesAnswer rd,
             (clearHelpers h rl)\<lparr>tty := tty (clearHelpers h rl) @ warningMsg (length data)
                 # concat (map (turnOutput (clearHelpers h rl) data) (pre @ [rd]))\<rparr>,
             rest)"
  by (simp add: allowMultiline_def allowLoop_run print_def)

text \<open>
  C10. \<^verbatim>\<open>allowMultiline\<close> calls \<^verbatim>\<open>clearHelpers\<close>, prints the warning and then, turn by turn,
  the question, the answer it read and what follows the answer. It passes over the answers
  that are neither yes nor no (\<^verbatim>\<open>p\<close> and \<^verbatim>\<open>P\<close> are among them), printing the preview or the
  invalid-response message and then the question again, and returns at the first answer
  that is yes or no: true when it is yes, false when it is no. It never returns while every
  answer is another one. So when it returns true the answer it stopped at is exactly \<^verbatim>\<open>y\<close>
  or \<^verbatim>\<open>Y\<close>, and when it returns false that answer is exactly \<^verbatim>\<open>n\<close> or \<^verbatim>\<open>N\<close> or a read that
  failed; the terminal then holds the question once for every answer read, and nothing
  else of the state has changed.
\<close>

theorem allowMultiline_answers:
  "(list_all otherAnswer pre \<longrightarrow> \<not> otherAnswer rd \<longrightarrow>
      allowMultiline h rl data (pre @ rd # rest)
        = Some (yesAnswer rd,
                (clearHelpers h rl)\<lparr>tty := tty (clearHelpers h rl) @ warningMsg (length data)
                    # concat (map (turnOutput (clearHelpers h rl) data) (pre @ [rd]))\<rparr>,
                rest)) \<and>
   (list_all otherAnswer dev \<longrightarrow> allowMultiline h rl data dev = None) \<and>
   (\<forall>ok rl' dev'.
      allowMultiline h rl data dev = Some (ok, rl', dev') \<longrightarrow>
      (\<exists>pre' rd'. dev = pre' @ rd' # dev' \<and> list_all otherAnswer pre' \<and>
         (ok \<longrightarrow> yesAnswer rd') \<and> (\<not> ok \<longrightarrow> noAnswer rd') \<and>
         rl' = (clearHelpers h rl)\<lparr>tty := tty (clearHelpers h rl) @ warningMsg (length data)
                    # concat (map (turnOutput (clearHelpers h rl) data) (pre' @ [rd']))\<rparr>)) \<and>
   otherAnswer ([0x70], None) \<and> otherAnswer ([0x50], None) \<and>
   yesAnswer rd = (\<exists>s. rd = (s, None) \<and> (s = [0x79] \<or> s = [0x59])) \<and>
   noAnswer rd = (\<exists>s err. rd = (s, err) \<and> (err \<noteq> None \<or> s = [0x6E] \<or> s = [0x4E])) \<and>
   (\<exists>out. turnOutput st data rd = proceedMsg # out) \<and>
   turnOutput st data (a, Some e) = [proceedMsg] \<and>
   (\<not> otherAnswer (a, None) \<longrightarrow> turnOutput st data (a, None) = [proceedMsg, a, crlf @ prompt st]) \<and>
   (otherAnswer (a, None) \<longrightarrow>
      turnOutput st data (a, None)
        = [proceedMsg, a,
           if a = [0x70] \<or> a = [0x50] then crlf @ previewText st data else invalidMsg])"
proof (intro conjI impI allI)
  assume "list_all otherAnswer pre" and "\<not> otherAnswer rd"
  then show "allowMultiline h rl data (pre @ rd # rest)
        = Some (yesAnswer rd,
                (clearHelpers h rl)\<lparr>tty := tty (clearHelpers h rl) @ warningMsg (length data)
                    # concat (map (turnOutput (clearHelpers h rl) data) (pre @ [rd]))\<rparr>,
                rest)"
    by (rule allowMultiline_run)
next
  assume "list_all otherAnswer dev"
  then show "allowMultiline h rl data dev = None"
    by (simp add: allowMultiline_def allowLoop_never)
next
  fix ok rl' dev'
  assume a: "allowMultiline h rl data dev = Some (ok, rl', dev')"
  then obtain pre' rd' where d: "dev = pre' @ rd' # dev'" "list_all otherAnswer pre'"
    "\<not> otherAnswer rd'"
    unfolding allowMultiline_def using allowLoop_decomp by blast
  from a have "ok = yesAnswer rd' \<and>
      rl' = (clearHelpers h rl)\<lparr>tty := tty (clearHelpers h rl) @ warningMsg (length data)
                    # concat (map (turnOutput (clearHelpers h rl) data) (pre' @ [rd']))\<rparr>"
    unfolding d(1) allowMultiline_run [OF d(2,3)] by simp
  with d have "dev = pre' @ rd' # dev' \<and> list_all otherAnswer pre' \<and>
         (ok \<longrightarrow> yesAnswer rd') \<and> (\<not> ok \<longrightarrow> noAnswer rd') \<and>
         rl' = (clearHelpers h rl)\<lparr>tty := tty (clearHelpers h rl) @ warningMsg (length data)
                    # concat (map (turnOutput (clearHelpers h rl) data) (pre' @ [rd']))\<rparr>"
    by (auto simp: otherAnswer_def)
  then show "\<exists>pre' rd'. dev = pre' @ rd' # dev' \<and> list_all otherAnswer pre' \<and>
         (ok \<longrightarrow> yesAnswer rd') \<and> (\<not> ok \<longrightarrow> noAnswer rd') \<and>
         rl' = (clearHelpers h rl)\<lparr>tty := tty (clearHelpers h rl) @ warningMsg (length data)
                    # concat (map (turnOutput (clearHelpers h rl) data) (pre' @ [rd']))\<rparr>"
    by blast
next
  show "otherAnswer ([0x70], None)" "otherAnswer ([0x50], None)"
    by (simp_all add: otherAnswer_def yesAnswer_def noAnswer_def)
next
  show "yesAnswer rd = (\<exists>s. rd = (s, None) \<and> (s = [0x79] \<or> s = [0x59]))"
    by (cases rd) (auto simp: yesAnswer_def)
next
  show "noAnswer rd = (\<exists>s err. rd = (s, err) \<and> (err \<noteq> None \<or> s = [0x6E] \<or> s = [0x4E]))"
    by (cases rd) (auto simp: noAnswer_def)
next
  show "\<exists>out. turnOutput st data rd = proceedMsg # out"
    by (cases rd) (simp add: turnOutput_def)
next
  show "turnOutput st data (a, Some e) = [proceedMsg]"
    by (simp add: turnOutput_def)
next
  assume "\<not> otherAnswer (a, None)"
  then show "turnOutput st data (a, None) = [proceedMsg, a, crlf @ prompt st]"
    by (auto simp: turnOutput_def otherAnswer_def yesAnswer_def noAnswer_def)
next
  assume "otherAnswer (a, None)"
  then show "turnOutput st data (a, None)
        = [proceedMsg, a,
           if a = [0x70] \<or> a = [0x50] then crlf @ previewText st data else invalidMsg]"
    by (auto simp: turnOutput_def otherAnswer_def yesAnswer_def noAnswer_def)
qed

theorem allowMultiline_answers_witness:
  "allowMultiline plainHelpers emptyInstance [0x61, 0x0A, 0x62]
       [([0x70], None), ([0x78], None), ([0x59], None), ([0x6E], None)]
     = Some (True,
             emptyInstance\<lparr>tty :=
               [warningMsg (length [0x61, 0x0A, 0x62 :: byte]),
                proceedMsg, [0x70], crlf @ [0x61, 0x0A, 0x62],
                proceedMsg, [0x78], invalidMsg,
                proceedMsg, [0x59], crlf @ [0x3E, 0x20]]\<rparr>,
             [([0x6E], None)]) \<and>
   allowMultiline plainHelpers emptyInstance [0x61, 0x0A, 0x62] [([0x70], None), ([0x78], None)]
     = None"
  using allowMultiline_answers [where pre = "[([0x70], None), ([0x78], None)]"
      and rd = "([0x59], None)" and h = plainHelpers and rl = emptyInstance
      and data = "[0x61, 0x0A, 0x62]" and rest = "[([0x6E], None)]"
      and dev = "[([0x70], None), ([0x78], None)]" and st = emptyInstance and a = "[]"
      and e = IoEOF]
  by (simp add: otherAnswer_def yesAnswer_def noAnswer_def turnOutput_def previewText_def
      replaceCR_def plainHelpers_def emptyInstance_def)

section \<open>Properties of the editor\<close>

lemma foldl_keeps_mode:
  "keepsMode h \<Longrightarrow>
   modeViMode (foldl (\<lambda>s char. rl_insert h [char] (rl_delete h s)) rl r) = modeViMode rl"
  by (induction r arbitrary: rl) (simp_all add: keepsMode_def)

text \<open>
  C8. \<^verbatim>\<open>editorInput\<close> switches on \<open>modeViMode\<close>. In replace-once mode it sets the mode to
  vi-command, calls \<^verbatim>\<open>rl.delete\<close> once and \<^verbatim>\<open>rl.insert\<close> once, with the first of the runes
  it was given. In replace-many mode it calls \<^verbatim>\<open>rl.delete\<close> and then \<^verbatim>\<open>rl.insert\<close> for every
  rune it was given, in order. In insert mode it calls \<^verbatim>\<open>rl.insert\<close> with all the runes.
  When the methods it calls keep \<open>modeViMode\<close>, the mode is vi-command after replace-once
  and still replace-many after replace-many.
\<close>

theorem editorInput_routes:
  "(modeViMode rl = vimReplaceOnce \<longrightarrow>
      editorInput h (c # cs) rl
        = Inr (editorInputEnd h (refreshVimStatus h
                 (rl_insert h [c] (rl_delete h (rl\<lparr>modeViMode := vimKeys\<rparr>)))))) \<and>
   (modeViMode rl = vimReplaceMany \<longrightarrow>
      editorInput h r rl
        = Inr (editorInputEnd h (refreshVimStatus h
                 (foldl (\<lambda>s char. rl_insert h [char] (rl_delete h s)) rl r)))) \<and>
   (modeViMode rl = vimInsert \<longrightarrow>
      editorInput h r rl = Inr (editorInputEnd h (rl_insert h r rl))) \<and>
   (keepsMode h \<longrightarrow> modeViMode rl = vimReplaceOnce \<longrightarrow>
      (\<exists>rl'. editorInput h (c # cs) rl = Inr rl' \<and> modeViMode rl' = vimKeys)) \<and>
   (keepsMode h \<longrightarrow> modeViMode rl = vimReplaceMany \<longrightarrow>
      (\<exists>rl'. editorInput h r rl = Inr rl' \<and> modeViMode rl' = vimReplaceMany))"
proof -
  have e: "modeViMode (editorInputEnd h s) = modeViMode s" if "keepsMode h" for s
    using that by (simp add: editorInputEnd_def keepsMode_def)
  have a: "modeViMode rl = vimReplaceOnce \<longrightarrow>
      editorInput h (c # cs) rl
        = Inr (editorInputEnd h (refreshVimStatus h
                 (rl_insert h [c] (rl_delete h (rl\<lparr>modeViMode := vimKeys\<rparr>)))))"
    by (simp add: editorInput_def)
  have b: "modeViMode rl = vimReplaceMany \<longrightarrow>
      editorInput h r rl
        = Inr (editorInputEnd h (refreshVimStatus h
                 (foldl (\<lambda>s char. rl_insert h [char] (rl_delete h s)) rl r)))"
    by (simp add: editorInput_def)
  have c: "modeViMode rl = vimInsert \<longrightarrow>
      editorInput h r rl = Inr (editorInputEnd h (rl_insert h r rl))"
    by (simp add: editorInput_def)
  have d: "keepsMode h \<longrightarrow> modeViMode rl = vimReplaceOnce \<longrightarrow>
      (\<exists>rl'. editorInput h (c # cs) rl = Inr rl' \<and> modeViMode rl' = vimKeys)"
    using a e by (auto simp: keepsMode_def)
  have f: "keepsMode h \<longrightarrow> modeViMode rl = vimReplaceMany \<longrightarrow>
      (\<exists>rl'. editorInput h r rl = Inr rl' \<and> modeViMode rl' = vimReplaceMany)"
    using b e foldl_keeps_mode [of h rl r] by (auto simp: keepsMode_def)
  from a b c d f show ?thesis by blast
qed

lemma keepsMode_plain: "keepsMode plainHelpers"
  by (simp add: keepsMode_def plainHelpers_def)

theorem editorInput_routes_witness:
  "editorInput plainHelpers [0x78, 0x79]
     (emptyInstance\<lparr>line := [0x61, 0x62, 0x63], pos := 1, modeViMode := vimReplaceOnce\<rparr>)
     = Inr (emptyInstance\<lparr>line := [0x61, 0x78, 0x63], pos := 2, modeViMode := vimKeys\<rparr>) \<and>
   editorInput plainHelpers [0x78, 0x79]
     (emptyInstance\<lparr>line := [0x61, 0x62, 0x63], pos := 1, modeViMode := vimReplaceMany\<rparr>)
     = Inr (emptyInstance\<lparr>line := [0x61, 0x78, 0x79], pos := 3, modeViMode := vimReplaceMany\<rparr>) \<and>
   editorInput plainHelpers [0x78, 0x79]
     (emptyInstance\<lparr>line := [0x61, 0x62, 0x63], pos := 1, modeViMode := vimInsert\<rparr>)
     = Inr (emptyInstance\<lparr>line := [0x61, 0x78, 0x79, 0x62, 0x63], pos := 3,
                           modeViMode := vimInsert\<rparr>)"
  using editorInput_routes [of
      "emptyInstance\<lparr>line := [0x61, 0x62, 0x63], pos := 1, modeViMode := vimReplaceOnce\<rparr>"
      plainHelpers "0x78" "[0x79]" "[0x78, 0x79]"]
    editorInput_routes [of
      "emptyInstance\<lparr>line := [0x61, 0x62, 0x63], pos := 1, modeViMode := vimReplaceMany\<rparr>"
      plainHelpers "0x78" "[0x79]" "[0x78, 0x79]"]
    editorInput_routes [of
      "emptyInstance\<lparr>line := [0x61, 0x62, 0x63], pos := 1, modeViMode := vimInsert\<rparr>"
      plainHelpers "0x78" "[0x79]" "[0x78, 0x79]"]
  by (simp add: plainHelpers_def emptyInstance_def editorInputEnd_def)

section \<open>Properties of a multiline paste\<close>

lemma isMultiline_intro:
  "Suc j < length ri \<Longrightarrow> ri ! j = 0x0D \<or> ri ! j = 0x0A \<Longrightarrow> isMultiline ri"
  by (auto simp: isMultiline_def list_ex_iff intro!: bexI [of _ j])

lemma isMultiline_single: "\<not> isMultiline [x]"
  by (simp add: isMultiline_def)


lemma afterRead_multiline:
  assumes j: "Suc j < length data" and nl: "data ! j = 0x0A \<or> data ! j = 0x0D"
    and cap: "length data \<le>
              runeCap h (length (runes_of_string (data @ replicate (1024 - length data) 0)))"
  shows "afterRead h rl data dev = multilineBranch h rl data dev"
proof -
  let ?b = "data @ replicate (1024 - length data) 0"
  let ?r = "runes_of_string ?b"
  let ?ri = "take (length data) (?r @ replicate (length data - length ?r) 0)"
  have bj: "j < length ?b" "?b ! j = data ! j" "data ! j < 0x80"
    using j nl by (auto simp: nth_append)
  from runes_of_string_keeps_ascii [OF bj(1) refl, of ] bj(2,3)
  obtain j' where j': "j' \<le> j" "j' < length ?r" "?r ! j' = ucast (data ! j)"
    by auto
  have len: "length ?ri = length data" by simp
  have "?ri ! j' = ?r ! j'"
    using j' j by (simp add: nth_append)
  then have "?ri ! j' = 0x0D \<or> ?ri ! j' = 0x0A"
    using j'(3) nl by auto
  moreover have "Suc j' < length ?ri" using j j'(1) len by simp
  ultimately have "isMultiline ?ri" by (rule isMultiline_intro [rotated])
  then show ?thesis
    using cap by (simp add: afterRead_def Let_def)
qed

lemma afterRead_panic:
  "runeCap h (length (runes_of_string (data @ replicate (1024 - length data) 0))) < length data
   \<Longrightarrow> afterRead h rl data dev = Panicked SliceBounds"
  by (simp add: afterRead_def Let_def)

lemma cap_ascii:
  assumes "list_all (\<lambda>b. b < 0x80) data" and "length data \<le> 1024"
  shows "length data \<le>
     runeCap h (length (runes_of_string (data @ replicate (1024 - length data) 0)))"
proof -
  have "list_all (\<lambda>b. b < 0x80) (data @ replicate (1024 - length data) (0 :: byte))"
    using assms(1) by (auto simp: list_all_iff)
  then have "length (runes_of_string (data @ replicate (1024 - length data) 0))
             = length (data @ replicate (1024 - length data) (0 :: byte))"
    by (simp only: runes_of_string_ascii length_map)
  then show ?thesis using assms(2) by (simp add: runeCap_def)
qed

lemma multilineBranch_full:
  "length data = 1024 \<Longrightarrow>
   multilineBranch h rl data dev = Continue (rl\<lparr>multiline := multiline rl @ data\<rparr>) dev"
  by (simp add: multilineBranch_def)

lemma multilineBranch_run:
  assumes "length data \<noteq> 1024" and "list_all otherAnswer pre" and "\<not> otherAnswer rd"
  shows "multilineBranch h rl data (pre @ rd # rest) =
     (if yesAnswer rd
      then acceptMultiline h
             ((clearHelpers h (rl\<lparr>multiline := multiline rl @ data\<rparr>))
                \<lparr>tty := tty (clearHelpers h (rl\<lparr>multiline := multiline rl @ data\<rparr>))
                     @ warningMsg (length (multiline rl @ data))
                     # concat (map (turnOutput (clearHelpers h (rl\<lparr>multiline := multiline rl @ data\<rparr>))
                                  (multiline rl @ data)) (pre @ [rd]))\<rparr>) rest
      else Continue
             ((clearHelpers h (rl\<lparr>multiline := multiline rl @ data\<rparr>))
                \<lparr>tty := tty (clearHelpers h (rl\<lparr>multiline := multiline rl @ data\<rparr>))
                     @ warningMsg (length (multiline rl @ data))
                     # concat (map (turnOutput (clearHelpers h (rl\<lparr>multiline := multiline rl @ data\<rparr>))
                                  (multiline rl @ data)) (pre @ [rd])),
                  multiline := []\<rparr>) rest)"
  using assms(1)
  by (simp add: multilineBranch_def Let_def allowMultiline_run [OF assms(2,3)])

lemma multilineBranch_never:
  "length data \<noteq> 1024 \<Longrightarrow> list_all otherAnswer dev \<Longrightarrow>
   multilineBranch h rl data dev = Blocked"
  by (simp add: multilineBranch_def Let_def allowMultiline_def allowLoop_never)

lemma runes_of_wide:
  "runes_of_string (concat (replicate n [0xC3, 0xA9]) @ bs) = replicate n 0xE9 @ runes_of_string bs"
  by (induction n) (simp_all add: contb_def)

lemma length_runes_widePaste:
  "length (runes_of_string (widePaste @ replicate (1024 - length widePaste) 0)) = 524"
proof -
  have l: "length widePaste = 1002"
    by (simp add: widePaste_def length_concat sum_list_replicate)
  have a: "list_all (\<lambda>b. b < 0x80) ([0x0A, 0x78] @ replicate 22 (0 :: byte))"
    by (auto simp: list_all_iff)
  have "runes_of_string (widePaste @ replicate (1024 - length widePaste) 0)
        = replicate 500 0xE9 @ runes_of_string ([0x0A, 0x78] @ replicate 22 0)"
    unfolding l by (simp add: widePaste_def runes_of_wide)
  also have "runes_of_string ([0x0A, 0x78] @ replicate 22 0)
             = map ucast ([0x0A, 0x78] @ replicate 22 (0 :: byte))"
    using a by (rule runes_of_string_ascii)
  finally show ?thesis by simp
qed

text \<open>
  C5, as the code has it. A turn of the loop of \<^verbatim>\<open>Readline\<close> reads a chunk \<open>data\<close> of at most
  1024 bytes that holds a line break before its last byte, and the slice \<^verbatim>\<open>r[:i]\<close> is within
  the capacity of the rune slice (always so when the chunk is ASCII). Then the turn enters
  multiline accumulation: \<open>data\<close> is appended to \<open>multiline\<close>. A chunk that fills the buffer
  (1024 bytes) is only accumulated, and the loop reads on with nothing printed. For a shorter
  chunk the terminal receives the warning, then one question for every answer read (each
  turn of the answers starts with the question, and a y/n answer is followed only by its
  echo and the prompt), and nothing of the paste reaches the line before the answer: on
  \<open>y\<close> the state given to the insertion is the asking state, on \<open>n\<close> or a failed read the loop
  goes on with \<open>multiline\<close> emptied and the line as it was. With no y/n answer and no failed
  read the turn waits for ever.
\<close>

theorem multiline_paste_question:
  assumes "Suc j < length data" and "data ! j = 0x0A \<or> data ! j = 0x0D"
    and "length data \<le> 1024"
    and "list_all (\<lambda>b. b < 0x80) data \<or>
         length data \<le>
           runeCap h (length (runes_of_string (data @ replicate (1024 - length data) 0)))"
    and "\<not> skipStdinRead rl"
  shows
    "(let rl0 = rl\<lparr>viUndoSkipAppend := False, skipStdinRead := False,
                    multiline := multiline rl @ data\<rparr>;
          rl1 = clearHelpers h rl0;
          asked = (\<lambda>answers.
                     rl1\<lparr>tty := tty rl1 @ warningMsg (length (multiline rl @ data))
                            # concat (map (turnOutput rl1 (multiline rl @ data)) answers)\<rparr>)
      in (length data = 1024 \<longrightarrow> loopBody h rl ((data, None) # dev) = Continue rl0 dev) \<and>
         (length data < 1024 \<longrightarrow>
            (list_all otherAnswer pre \<longrightarrow> \<not> otherAnswer rd \<longrightarrow>
               loopBody h rl ((data, None) # pre @ rd # rest)
                 = (if yesAnswer rd then acceptMultiline h (asked (pre @ [rd])) rest
                    else Continue ((asked (pre @ [rd]))\<lparr>multiline := []\<rparr>) rest)
               \<and> line ((asked (pre @ [rd]))\<lparr>multiline := []\<rparr>) = line rl1) \<and>
            (list_all otherAnswer dev \<longrightarrow> loopBody h rl ((data, None) # dev) = Blocked)) \<and>
         (\<exists>out. turnOutput rl1 (multiline rl @ data) a = proceedMsg # out) \<and>
         (\<not> otherAnswer a \<longrightarrow>
            turnOutput rl1 (multiline rl @ data) a
              = proceedMsg # (if snd a = None then [fst a, crlf @ prompt rl1] else [])))"
proof -
  let ?rl0 = "rl\<lparr>viUndoSkipAppend := False, skipStdinRead := False\<rparr>"
  have cap: "length data \<le>
           runeCap h (length (runes_of_string (data @ replicate (1024 - length data) 0)))"
    using assms(3,4) cap_ascii by blast
  have body: "loopBody h rl ((data, None) # d) = multilineBranch h ?rl0 data d" for d
  proof -
    have "loopBody h rl ((data, None) # d) = afterRead h ?rl0 data d"
      using assms(5) by (simp add: loopBody_def)
    also have "\<dots> = multilineBranch h ?rl0 data d"
      using assms(1,2) cap by (rule afterRead_multiline)
    finally show ?thesis .
  qed
  have t1: "\<exists>out. turnOutput s d a = proceedMsg # out" for s d
    by (cases a) (simp add: turnOutput_def)
  have t2: "\<not> otherAnswer a \<longrightarrow>
      turnOutput s d a = proceedMsg # (if snd a = None then [fst a, crlf @ prompt s] else [])"
    for s d
    by (cases a) (auto simp: turnOutput_def otherAnswer_def yesAnswer_def noAnswer_def)
  show ?thesis
    unfolding Let_def body
    using t1 t2
    by (auto simp: multilineBranch_full multilineBranch_run multilineBranch_never)
qed

text \<open>
  C5, an instance: the paste \<^verbatim>\<open>line1\nline2\<close> answered with \<open>n\<close> prints the warning, one
  question, the echo and the prompt, and leaves the line empty.
\<close>

theorem multiline_paste_question_witness:
  "loopBody plainHelpers emptyInstance [(pasteExample, None), ([0x6E], None)]
   = Continue (emptyInstance\<lparr>tty := [warningMsg (length pasteExample), proceedMsg, [0x6E],
                                     crlf @ [0x3E, 0x20]]\<rparr>) []"
proof -
  have "Suc 5 < length pasteExample" "pasteExample ! 5 = 0x0A \<or> pasteExample ! 5 = 0x0D"
    "length pasteExample \<le> 1024"
    "list_all (\<lambda>b. b < 0x80) pasteExample \<or>
       length pasteExample \<le> runeCap plainHelpers (length (runes_of_string
         (pasteExample @ replicate (1024 - length pasteExample) 0)))"
    "\<not> skipStdinRead emptyInstance"
    by (simp_all add: pasteExample_def emptyInstance_def)
  from multiline_paste_question [OF this, where pre = "[]" and rd = "([0x6E], None)"
      and rest = "[]" and dev = "[]" and a = "([0x6E], None)"]
  show ?thesis
    by (simp add: Let_def otherAnswer_def yesAnswer_def noAnswer_def turnOutput_def
        plainHelpers_def emptyInstance_def pasteExample_def)
qed

text \<open>
  C5, as the claim states it, fails. After the paste \<^verbatim>\<open>line1\nline2\<close> the answers \<open>p\<close> then
  \<open>n\<close> print the question twice. A paste of 1024 bytes is accumulated with no question at
  all, and the next turn waits for another read. A paste of 1002 bytes made of 500 two-byte
  runes, a line break and a letter stops \<^verbatim>\<open>Readline\<close> in \<^verbatim>\<open>r[:i]\<close>: the rune slice has 524
  elements, and the byte count 1002 is out of its range.
\<close>

theorem multiline_paste_question_counterexample:
  "loopBody plainHelpers emptyInstance
     [(pasteExample, None), ([0x70], None), ([0x6E], None)]
   = Continue (emptyInstance\<lparr>tty :=
        [warningMsg (length pasteExample),
         proceedMsg, [0x70], crlf @ pasteExample,
         proceedMsg, [0x6E], crlf @ [0x3E, 0x20]]\<rparr>) [] \<and>
   loopBody plainHelpers emptyInstance [(fullPaste, None)]
     = Continue (emptyInstance\<lparr>multiline := fullPaste\<rparr>) [] \<and>
   loopBody plainHelpers (emptyInstance\<lparr>multiline := fullPaste\<rparr>) [] = Blocked \<and>
   loopBody plainHelpers emptyInstance [(widePaste, None)] = Panicked SliceBounds"
proof -
  have p: "Suc 5 < length pasteExample" "pasteExample ! 5 = 0x0A \<or> pasteExample ! 5 = 0x0D"
    "list_all (\<lambda>b. b < 0x80) pasteExample" "length pasteExample \<le> 1024"
    by (simp_all add: pasteExample_def)
  have "afterRead plainHelpers emptyInstance pasteExample [([0x70], None), ([0x6E], None)]
        = multilineBranch plainHelpers emptyInstance pasteExample [([0x70], None), ([0x6E], None)]"
    using p(1,2) cap_ascii [OF p(3,4)] by (rule afterRead_multiline)
  moreover have "otherAnswer ([0x70], None)" "\<not> otherAnswer ([0x6E], None)"
    "\<not> yesAnswer ([0x6E], None)"
    by (simp_all add: otherAnswer_def yesAnswer_def noAnswer_def)
  moreover have "length pasteExample \<noteq> 1024" "replaceCR pasteExample = pasteExample"
    by (simp_all add: pasteExample_def replaceCR_def)
  ultimately have a: "loopBody plainHelpers emptyInstance
     [(pasteExample, None), ([0x70], None), ([0x6E], None)]
   = Continue (emptyInstance\<lparr>tty :=
        [warningMsg (length pasteExample),
         proceedMsg, [0x70], crlf @ pasteExample,
         proceedMsg, [0x6E], crlf @ [0x3E, 0x20]]\<rparr>) []"
    by (simp add: loopBody_def multilineBranch_def allowMultiline_def allowLoop_again
        allowLoop_stop turnOutput_def previewText_def print_def
        plainHelpers_def emptyInstance_def)
  have f: "Suc 1 < length fullPaste" "fullPaste ! 1 = 0x0A \<or> fullPaste ! 1 = 0x0D"
    "list_all (\<lambda>b. b < 0x80) fullPaste" "length fullPaste \<le> 1024" "length fullPaste = 1024"
    by (auto simp: fullPaste_def list_all_iff)
  have "afterRead plainHelpers emptyInstance fullPaste []
        = multilineBranch plainHelpers emptyInstance fullPaste []"
    using f(1,2) cap_ascii [OF f(3,4)] by (rule afterRead_multiline)
  then have b: "loopBody plainHelpers emptyInstance [(fullPaste, None)]
     = Continue (emptyInstance\<lparr>multiline := fullPaste\<rparr>) []"
    using f(5) by (simp add: loopBody_def multilineBranch_full emptyInstance_def)
  have c: "loopBody plainHelpers (emptyInstance\<lparr>multiline := fullPaste\<rparr>) [] = Blocked"
    by (simp add: loopBody_def emptyInstance_def)
  have "length widePaste = 1002"
    by (simp add: widePaste_def length_concat sum_list_replicate)
  then have "runeCap plainHelpers (length (runes_of_string
               (widePaste @ replicate (1024 - length widePaste) 0))) < length widePaste"
    unfolding length_runes_widePaste by (simp add: runeCap_def plainHelpers_def)
  then have "afterRead plainHelpers emptyInstance widePaste [] = Panicked SliceBounds"
    by (rule afterRead_panic)
  then have d: "loopBody plainHelpers emptyInstance [(widePaste, None)] = Panicked SliceBounds"
    by (simp add: loopBody_def emptyInstance_def)
  from a b c d show ?thesis by blast
qed

section \<open>Properties of the interrupt keys\<close>

lemma afterRead_one_key:
  assumes "c < 0x80" and "multiline rl = []" and "evtKeyPress rl [c] = None"
  shows "afterRead h rl [c] dev = dispatchKey h c [ucast c] rl dev"
proof -
  have a: "list_all (\<lambda>b. b < 0x80) ([c] @ replicate (1024 - length [c]) (0 :: byte))"
    using assms(1) by (auto simp: list_all_iff)
  have r: "runes_of_string ([c] @ replicate (1024 - length [c]) 0)
           = map ucast ([c] @ replicate (1024 - length [c]) (0 :: byte))"
    using a by (rule runes_of_string_ascii)
  have s: "string_of_runes [ucast c] = [c]"
    using string_of_runes_ascii [of "[c]"] assms(1) by simp
  have cap: "1 \<le> runeCap h 1024"
    by (simp add: runeCap_def)
  show ?thesis
    unfolding afterRead_def Let_def r
    using assms(2,3) cap by (simp add: isMultiline_single s keyPressEvent_def)
qed

text \<open>
  C6, as the code has it. What \<^verbatim>\<open>errorCtrlC\<close> and \<^verbatim>\<open>errorEOF\<close> return does not depend on
  \<open>modeViMode\<close>. With no completion inserted (\<open>comp\<close> empty) \<^verbatim>\<open>errorCtrlC\<close> asks for the
  return of the line with the error \<^verbatim>\<open>ErrCtrlC\<close>; with a completion inserted it cancels the
  completion and asks to read on, with no error; whenever it asks for a return the error
  is \<^verbatim>\<open>ErrCtrlC\<close>. In \<^verbatim>\<open>Readline\<close> the switch returns the empty string and the error \<^verbatim>\<open>CtrlC\<close>
  on the key Ctrl-C, in every mode, and so does a turn of the loop that reads this key
  (no paste pending, no key-press handler for it); on a carriage return, with no completion
  menu open, it returns the line and no error.
\<close>

theorem interrupt_result:
  "fst (errorCtrlC h r (rl\<lparr>modeViMode := m\<rparr>)) = fst (errorCtrlC h r rl) \<and>
   fst (errorEOF h r (rl\<lparr>modeViMode := m\<rparr>)) = fst (errorEOF h r rl) \<and>
   (comp_rl rl = [] \<longrightarrow>
      fst (errorCtrlC h r rl) = (False, True, string_of_runes (line rl), Some ErrCtrlC)) \<and>
   (comp_rl rl \<noteq> [] \<longrightarrow> fst (errorCtrlC h r rl) = (True, False, [], None)) \<and>
   (\<forall>rd v e. fst (errorCtrlC h r rl) = (rd, True, v, e) \<longrightarrow> e = Some ErrCtrlC) \<and>
   dispatchKey h (charCtrlC h) ri rl dev = Return [] (Some CtrlC) (clearHelpers h rl) dev \<and>
   (charCtrlC h < 0x80 \<longrightarrow> \<not> skipStdinRead rl \<longrightarrow> multiline rl = [] \<longrightarrow>
    evtKeyPress rl [charCtrlC h] = None \<longrightarrow>
      loopBody h rl (([charCtrlC h], None) # dev)
        = Return [] (Some CtrlC)
            (clearHelpers h (rl\<lparr>viUndoSkipAppend := False, skipStdinRead := False\<rparr>)) dev) \<and>
   (0x0D \<notin> set [charCtrlC h, charEOF h, charCtrlF h, charCtrlR h, charCtrlU h, charTab h] \<longrightarrow>
    \<not> modeTabCompletion rl \<longrightarrow>
      dispatchKey h 0x0D ri rl dev
        = Return (string_of_runes (line (carridgeReturn h rl))) None (carridgeReturn h rl) dev)"
proof -
  have a: "fst (errorCtrlC h r (rl\<lparr>modeViMode := m\<rparr>)) = fst (errorCtrlC h r rl)"
    by (simp add: errorCtrlC_def Let_def)
  have b: "fst (errorEOF h r (rl\<lparr>modeViMode := m\<rparr>)) = fst (errorEOF h r rl)"
    by (simp add: errorEOF_def Let_def)
  have c: "comp_rl rl = [] \<longrightarrow>
      fst (errorCtrlC h r rl) = (False, True, string_of_runes (line rl), Some ErrCtrlC)"
    by (simp add: errorCtrlC_def Let_def)
  have c': "comp_rl rl \<noteq> [] \<longrightarrow> fst (errorCtrlC h r rl) = (True, False, [], None)"
    by (simp add: errorCtrlC_def Let_def)
  have d: "\<forall>rd v e. fst (errorCtrlC h r rl) = (rd, True, v, e) \<longrightarrow> e = Some ErrCtrlC"
    by (simp add: errorCtrlC_def Let_def)
  have e: "dispatchKey h (charCtrlC h) ri rl dev
           = Return [] (Some CtrlC) (clearHelpers h rl) dev" for ri rl
    by (simp add: dispatchKey_def)
  have f: "charCtrlC h < 0x80 \<longrightarrow> \<not> skipStdinRead rl \<longrightarrow> multiline rl = [] \<longrightarrow>
    evtKeyPress rl [charCtrlC h] = None \<longrightarrow>
      loopBody h rl (([charCtrlC h], None) # dev)
        = Return [] (Some CtrlC)
            (clearHelpers h (rl\<lparr>viUndoSkipAppend := False, skipStdinRead := False\<rparr>)) dev"
    by (simp add: loopBody_def afterRead_one_key e)
  have g: "0x0D \<notin> set [charCtrlC h, charEOF h, charCtrlF h, charCtrlR h, charCtrlU h, charTab h] \<longrightarrow>
    \<not> modeTabCompletion rl \<longrightarrow>
      dispatchKey h 0x0D ri rl dev
        = Return (string_of_runes (line (carridgeReturn h rl))) None (carridgeReturn h rl) dev"
    by (auto simp: dispatchKey_def Let_def)
  from a b c c' d e f g show ?thesis by blast
qed

theorem interrupt_result_witness:
  "fst (errorCtrlC plainHelpers [] (emptyInstance\<lparr>line := [0x61], modeViMode := vimKeys\<rparr>))
     = (False, True, [0x61], Some ErrCtrlC) \<and>
   loopBody plainHelpers (emptyInstance\<lparr>line := [0x61], modeViMode := vimKeys\<rparr>) [([3], None)]
     = Return [] (Some CtrlC) (emptyInstance\<lparr>line := [0x61], modeViMode := vimKeys\<rparr>) [] \<and>
   dispatchKey plainHelpers 0x0D [0x0D] (emptyInstance\<lparr>line := [0x61], modeViMode := vimKeys\<rparr>) []
     = Return [0x61] None
         (emptyInstance\<lparr>line := [0x61], modeViMode := vimKeys, tty := [crlf]\<rparr>) []"
  using interrupt_result [where h = plainHelpers and r = "[]" and m = vimKeys
      and rl = "emptyInstance\<lparr>line := [0x61], modeViMode := vimKeys\<rparr>"
      and ri = "[0x0D]" and dev = "[]"]
  by (simp add: plainHelpers_def emptyInstance_def carridgeReturn_def print_def
      string_of_runes_def encoderune_def)

text \<open>
  C6, as the claim states it, fails: with a completion inserted, Ctrl-C is not reported to
  the caller. \<^verbatim>\<open>errorCtrlC\<close> returns \<open>read\<close> set and \<open>ret\<close> not set, an empty value and no
  error.
\<close>

theorem interrupt_result_counterexample:
  "fst (errorCtrlC plainHelpers [] (emptyInstance\<lparr>comp_rl := [0x61]\<rparr>))
     = (True, False, [], None)"
  by (simp add: errorCtrlC_def Let_def emptyInstance_def)

end
